theory Spec2Isabelle
  imports Complex_Main "HOL-Library.AList"
begin

section \<open>Python values, errors and containers\<close>

text \<open>
  The evaluation engine of \<^verbatim>\<open>obb_anns.py\<close> (class \<^verbatim>\<open>OBBAnns\<close>) is embedded
  function by function. Finite numbers are real numbers: sums, products and quotients
  are exact, without the rounding of double-precision arithmetic. Every exception the
  Python code can raise is a value of type \<open>error\<close>; a function that can raise returns
  \<open>error + 'a\<close>, \<open>Inl\<close> carrying the exception.
\<close>

datatype error =
    AssertionError
  | KeyError
  | IndexError
  | ValueError
  | ZeroDivisionError
  | TypeError

definition and_then :: "error + 'a \<Rightarrow> ('a \<Rightarrow> error + 'b) \<Rightarrow> error + 'b" where
  "and_then r f = (case r of Inl e \<Rightarrow> Inl e | Inr v \<Rightarrow> f v)"

text \<open>A comprehension or \<^verbatim>\<open>apply\<close> whose body can raise stops at the first exception.\<close>

fun try_map :: "('a \<Rightarrow> error + 'b) \<Rightarrow> 'a list \<Rightarrow> error + 'b list" where
  "try_map f [] = Inr []"
| "try_map f (x # xs) =
     and_then (f x) (\<lambda>y. and_then (try_map f xs) (\<lambda>ys. Inr (y # ys)))"

text \<open>\<^verbatim>\<open>xs[i]\<close> for a non-negative constant or computed index.\<close>

definition item :: "'a list \<Rightarrow> nat \<Rightarrow> error + 'a" where
  "item xs i = (if i < length xs then Inr (xs ! i) else Inl IndexError)"

subsection \<open>Floating-point values of numpy\<close>

text \<open>
  A numpy float is a finite number, \<^verbatim>\<open>nan\<close>, or an infinity (\<open>Inf True\<close> is
  \<^verbatim>\<open>+inf\<close>). numpy arithmetic never raises: a quotient by zero is \<^verbatim>\<open>nan\<close> for a zero
  numerator and an infinity otherwise (with a warning only). The sign of zero is not
  modelled: a zero divisor counts as \<^verbatim>\<open>+0\<close>.
\<close>

datatype fval = Fin real | NaN | Inf bool

fun fneg :: "fval \<Rightarrow> fval" where
  "fneg (Fin a) = Fin (- a)"
| "fneg NaN = NaN"
| "fneg (Inf s) = Inf (\<not> s)"

fun fadd :: "fval \<Rightarrow> fval \<Rightarrow> fval" where
  "fadd (Fin a) (Fin b) = Fin (a + b)"
| "fadd (Fin a) (Inf s) = Inf s"
| "fadd (Inf s) (Fin b) = Inf s"
| "fadd (Inf s) (Inf s') = (if s = s' then Inf s else NaN)"
| "fadd NaN y = NaN"
| "fadd x NaN = NaN"

definition fsub :: "fval \<Rightarrow> fval \<Rightarrow> fval" where
  "fsub x y = fadd x (fneg y)"

fun fmul :: "fval \<Rightarrow> fval \<Rightarrow> fval" where
  "fmul (Fin a) (Fin b) = Fin (a * b)"
| "fmul (Fin a) (Inf s) = (if a = 0 then NaN else Inf (s = (0 < a)))"
| "fmul (Inf s) (Fin b) = (if b = 0 then NaN else Inf (s = (0 < b)))"
| "fmul (Inf s) (Inf s') = Inf (s = s')"
| "fmul NaN y = NaN"
| "fmul x NaN = NaN"

fun fdiv :: "fval \<Rightarrow> fval \<Rightarrow> fval" where
  "fdiv (Fin a) (Fin b) =
     (if b = 0 then (if a = 0 then NaN else Inf (0 < a)) else Fin (a / b))"
| "fdiv (Fin a) (Inf s) = Fin 0"
| "fdiv (Inf s) (Fin b) = Inf (s = (0 \<le> b))"
| "fdiv (Inf s) (Inf s') = NaN"
| "fdiv NaN y = NaN"
| "fdiv x NaN = NaN"

text \<open>\<^verbatim>\<open>x < y\<close>, false as soon as one side is \<^verbatim>\<open>nan\<close>; \<^verbatim>\<open>x >= y\<close>; \<^verbatim>\<open>x != y\<close>.\<close>

fun fless :: "fval \<Rightarrow> fval \<Rightarrow> bool" where
  "fless (Fin a) (Fin b) = (a < b)"
| "fless (Fin a) (Inf s) = s"
| "fless (Inf s) (Fin b) = (\<not> s)"
| "fless (Inf s) (Inf s') = (\<not> s \<and> s')"
| "fless NaN y = False"
| "fless x NaN = False"

definition fge :: "fval \<Rightarrow> fval \<Rightarrow> bool" where
  "fge x y = (x \<noteq> NaN \<and> y \<noteq> NaN \<and> \<not> fless x y)"

definition fne :: "fval \<Rightarrow> fval \<Rightarrow> bool" where
  "fne x y = (x = NaN \<or> y = NaN \<or> x \<noteq> y)"

text \<open>\<^verbatim>\<open>np.maximum(x, y)\<close>, which propagates \<^verbatim>\<open>nan\<close>.\<close>

definition fmax :: "fval \<Rightarrow> fval \<Rightarrow> fval" where
  "fmax x y = (if x = NaN \<or> y = NaN then NaN else if fless x y then y else x)"

text \<open>\<^verbatim>\<open>np.sum\<close> of a sequence; 0 for the empty one.\<close>

definition fsum :: "fval list \<Rightarrow> fval" where
  "fsum xs = foldl fadd (Fin 0) xs"

subsection \<open>Operands of scalar arithmetic\<close>

text \<open>
  A scalar expression mixes Python numbers (the coordinates of a ground-truth box, read
  from JSON) and numpy scalars (the coordinates of a detection box, a \<^verbatim>\<open>float32\<close>
  array). An operation on two Python numbers is Python's; as soon as one operand is a
  numpy scalar the operation is numpy's and so is its result.
\<close>

datatype operand = PyNum real | NpNum real

fun num_value :: "operand \<Rightarrow> real" where
  "num_value (PyNum x) = x"
| "num_value (NpNum x) = x"

fun is_python :: "operand \<Rightarrow> bool" where
  "is_python (PyNum x) = True"
| "is_python (NpNum x) = False"

definition num_sub :: "operand \<Rightarrow> operand \<Rightarrow> operand" where
  "num_sub x y =
     (if is_python x \<and> is_python y then PyNum (num_value x - num_value y)
      else NpNum (num_value x - num_value y))"

definition num_mul :: "operand \<Rightarrow> operand \<Rightarrow> operand" where
  "num_mul x y =
     (if is_python x \<and> is_python y then PyNum (num_value x * num_value y)
      else NpNum (num_value x * num_value y))"

text \<open>
  \<^verbatim>\<open>min([x, y, ...])\<close> and \<^verbatim>\<open>max([x, y, ...])\<close> on a list literal with first
  element \<open>x\<close>: the running candidate is replaced only by a strictly smaller (larger)
  element, and the result is that element itself, Python number or numpy scalar.
\<close>

fun py_min :: "operand \<Rightarrow> operand list \<Rightarrow> operand" where
  "py_min m [] = m"
| "py_min m (x # xs) = py_min (if num_value x < num_value m then x else m) xs"

fun py_max :: "operand \<Rightarrow> operand list \<Rightarrow> operand" where
  "py_max m [] = m"
| "py_max m (x # xs) = py_max (if num_value m < num_value x then x else m) xs"

text \<open>
  \<^verbatim>\<open>x / y\<close>. Between two Python numbers a zero divisor raises
  \<^verbatim>\<open>ZeroDivisionError\<close>; with a numpy scalar on either side the quotient is numpy's.
\<close>

definition truediv :: "operand \<Rightarrow> operand \<Rightarrow> error + fval" where
  "truediv x y =
     (if is_python x \<and> is_python y then
        (if num_value y = 0 then Inl ZeroDivisionError
         else Inr (Fin (num_value x / num_value y)))
      else Inr (fdiv (Fin (num_value x)) (Fin (num_value y))))"

section \<open>Geometry\<close>

text \<open>
  \<^verbatim>\<open>calculate_aligned_overlap(row)\<close> with \<open>a = row['gt']\<close>, a list of Python numbers,
  and \<open>b = row['det']\<close>, a numpy array (lines 408-420).
\<close>

definition calculate_aligned_overlap :: "real list \<Rightarrow> real list \<Rightarrow> error + fval" where
  "calculate_aligned_overlap a b =
     and_then (item a 2) (\<lambda>a2. and_then (item b 2) (\<lambda>b2.
     and_then (item a 0) (\<lambda>a0. and_then (item b 0) (\<lambda>b0.
     and_then (item a 3) (\<lambda>a3. and_then (item b 3) (\<lambda>b3.
     and_then (item a 1) (\<lambda>a1. and_then (item b 1) (\<lambda>b1.
       let dx_int = num_sub (py_min (PyNum a2) [NpNum b2]) (py_max (PyNum a0) [NpNum b0]);
           dy_int = num_sub (py_min (PyNum a3) [NpNum b3]) (py_max (PyNum a1) [NpNum b1]);
           dx_ov = num_sub (py_max (PyNum a2) [NpNum b2]) (py_min (PyNum a0) [NpNum b0]);
           dy_ov = num_sub (py_max (PyNum a3) [NpNum b3]) (py_min (PyNum a1) [NpNum b1])
       in if num_value dx_int \<ge> 0 \<and> num_value dy_int \<ge> 0
          then truediv (num_mul dx_int dy_int) (num_mul dx_ov dy_ov)
          else Inr (Fin 0)))))))))"

text \<open>
  The same function as the specification words it, on boxes
  \<open>(xmin, ymin, xmax, ymax)\<close>: intersection extents, bounding extents, and their
  quotient of products.
\<close>

definition spec_dx_int :: "real list \<Rightarrow> real list \<Rightarrow> real" where
  "spec_dx_int a b = min (a ! 2) (b ! 2) - max (a ! 0) (b ! 0)"

definition spec_dy_int :: "real list \<Rightarrow> real list \<Rightarrow> real" where
  "spec_dy_int a b = min (a ! 3) (b ! 3) - max (a ! 1) (b ! 1)"

definition spec_dx_ov :: "real list \<Rightarrow> real list \<Rightarrow> real" where
  "spec_dx_ov a b = max (a ! 2) (b ! 2) - min (a ! 0) (b ! 0)"

definition spec_dy_ov :: "real list \<Rightarrow> real list \<Rightarrow> real" where
  "spec_dy_ov a b = max (a ! 3) (b ! 3) - min (a ! 1) (b ! 1)"

section \<open>The annotation and proposal store\<close>

text \<open>
  A pandas \<^verbatim>\<open>DataFrame\<close> with an explicit index is a list of rows, each paired with
  its index label; one with the default range index is a plain list of rows. The raw
  \<open>cat_id\<close> of an annotation holds one category id per annotation set (the JSON
  strings are read through \<^verbatim>\<open>int(...)\<close> wherever they are used, so they are integers
  here).
\<close>

record annotation =
  a_bbox :: "real list"
  o_bbox :: "real list"
  cat_id :: "int list"
  area :: real
  img_id :: int
  comments :: string

record image =
  image_id :: int
  filename :: string
  ann_ids :: "int list"

record proposal =
  bbox :: "real list"
  prop_cat_id :: int
  img_idx :: nat
  score :: real

text \<open>\<^verbatim>\<open>chosen_ann_set\<close> is a single name or a list of names (\<^verbatim>\<open>isinstance(.., str)\<close>).\<close>

datatype ann_set_filter = SetName string | SetNames "string list"

text \<open>
  The fields of \<^verbatim>\<open>OBBAnns\<close> the engine reads. \<open>img_info\<close> and \<open>proposals\<close> are
  \<^verbatim>\<open>None\<close> until loaded.
\<close>

record obb_anns =
  annotation_sets :: "string list"
  chosen_ann_set :: ann_set_filter
  classes_blacklist_id :: "int list"
  ann_info :: "(int \<times> annotation) list"
  img_info :: "image list option"
  img_idx_lookup :: "(int \<times> nat) list"
  proposals :: "proposal list option"
  props_oriented :: bool
  prop_ann_set_idx :: "nat option"

text \<open>\<^verbatim>\<open>list.index(x)\<close>.\<close>

fun index_of :: "'a list \<Rightarrow> 'a \<Rightarrow> error + nat" where
  "index_of [] x = Inl ValueError"
| "index_of (y # ys) x =
     (if y = x then Inr 0 else and_then (index_of ys x) (\<lambda>i. Inr (Suc i)))"

text \<open>\<^verbatim>\<open>df.loc[labels]\<close>: the rows of each label in turn; a missing label raises.\<close>

fun loc :: "(int \<times> 'a) list \<Rightarrow> int list \<Rightarrow> error + (int \<times> 'a) list" where
  "loc df [] = Inr []"
| "loc df (l # ls) =
     (if filter (\<lambda>r. fst r = l) df = [] then Inl KeyError
      else and_then (loc df ls) (\<lambda>rest. Inr (filter (\<lambda>r. fst r = l) df @ rest)))"

text \<open>\<^verbatim>\<open>df.drop(label)\<close>: removes every row carrying the label; a missing label raises.\<close>

definition drop_label :: "(int \<times> 'a) list \<Rightarrow> int \<Rightarrow> error + (int \<times> 'a) list" where
  "drop_label df l =
     (if l \<in> fst ` set df then Inr (filter (\<lambda>r. fst r \<noteq> l) df) else Inl KeyError)"

text \<open>\<^verbatim>\<open>_xor_args(m, n)\<close> (lines 93-97).\<close>

definition xor_args :: "'a option \<Rightarrow> 'b option \<Rightarrow> error + unit" where
  "xor_args m n =
     (if (m \<noteq> None \<and> n = None) \<or> (m = None \<and> n \<noteq> None) then Inr ()
      else Inl AssertionError)"

text \<open>The local \<^verbatim>\<open>filter_ids(record)\<close> of \<^verbatim>\<open>get_ann_ids\<close> (lines 315-318).\<close>

definition filter_ids :: "obb_anns \<Rightarrow> nat list \<Rightarrow> int list \<Rightarrow> error + int list" where
  "filter_ids s ann_set_idx record =
     and_then (try_map (item record) ann_set_idx)
       (\<lambda>ids. Inr (filter (\<lambda>c. c \<notin> set (classes_blacklist_id s)) ids))"

text \<open>\<^verbatim>\<open>get_ann_ids(ann_ids, ann_set_filter)\<close> (lines 290-323).\<close>

definition get_ann_ids ::
  "obb_anns \<Rightarrow> int list \<Rightarrow> ann_set_filter option \<Rightarrow> error + (int \<times> annotation) list" where
  "get_ann_ids s ids ann_set_filter =
     and_then (loc (ann_info s) ids) (\<lambda>selected.
       let flt = (case ann_set_filter of None \<Rightarrow> chosen_ann_set s | Some f \<Rightarrow> f);
           names = (case flt of SetName n \<Rightarrow> [n] | SetNames ns \<Rightarrow> ns)
       in and_then (try_map (index_of (annotation_sets s)) names) (\<lambda>ann_set_idx.
          and_then (try_map (\<lambda>(l, r). and_then (filter_ids s ann_set_idx (cat_id r))
                                         (\<lambda>c. Inr (l, r\<lparr>cat_id := c\<rparr>))) selected)
            (\<lambda>mapped. Inr (filter (\<lambda>(l, r). length (cat_id r) > 0) mapped))))"

text \<open>\<^verbatim>\<open>get_anns(img_idx, img_id, ann_set_filter)\<close> (lines 256-278).\<close>

definition get_anns ::
  "obb_anns \<Rightarrow> nat option \<Rightarrow> int option \<Rightarrow> ann_set_filter option
     \<Rightarrow> error + (int \<times> annotation) list" where
  "get_anns s idx ident ann_set_filter =
     and_then (xor_args idx ident) (\<lambda>_.
       case img_info s of
         None \<Rightarrow> Inl TypeError
       | Some imgs \<Rightarrow>
           (case idx of
              Some i \<Rightarrow> and_then (item imgs i) (\<lambda>img. get_ann_ids s (ann_ids img) ann_set_filter)
            | None \<Rightarrow>
                (case map_of (img_idx_lookup s) (the ident) of
                   None \<Rightarrow> Inl KeyError
                 | Some i \<Rightarrow>
                     and_then (item imgs i)
                       (\<lambda>img. get_ann_ids s (ann_ids img) ann_set_filter))))"

section \<open>Per-image matcher\<close>

text \<open>
  A pandas \<^verbatim>\<open>Series\<close> of overlaps is a list of (label, value). \<^verbatim>\<open>max()\<close> and
  \<^verbatim>\<open>idxmax()\<close> skip \<^verbatim>\<open>nan\<close>: \<open>series_best\<close> is the first row, in order, that holds
  the largest of the values that are not \<^verbatim>\<open>nan\<close>. \<^verbatim>\<open>max()\<close> is its value
  (\<^verbatim>\<open>nan\<close> when every value is \<^verbatim>\<open>nan\<close>) and \<^verbatim>\<open>idxmax()\<close> its label (the matcher
  asks for the label only after \<^verbatim>\<open>max() > 0.2\<close>, when there is one).
\<close>

fun series_best :: "(int \<times> fval) list \<Rightarrow> (int \<times> fval) option" where
  "series_best [] = None"
| "series_best (r # rs) =
     (if snd r = NaN then series_best rs
      else case series_best rs of
             None \<Rightarrow> Some r
           | Some b \<Rightarrow> if fless (snd r) (snd b) then Some b else Some r)"

definition series_max :: "(int \<times> fval) list \<Rightarrow> fval" where
  "series_max ovs = (case series_best ovs of None \<Rightarrow> NaN | Some b \<Rightarrow> snd b)"

definition series_idxmax :: "(int \<times> fval) list \<Rightarrow> error + int" where
  "series_idxmax ovs = (case series_best ovs of None \<Rightarrow> Inl ValueError | Some b \<Rightarrow> Inr (fst b))"

text \<open>
  \<^verbatim>\<open>pd.DataFrame({'gt': <Series>, 'det': <list>})\<close>: the index is that of the series,
  and a list column of another length raises \<^verbatim>\<open>ValueError\<close>.
\<close>

definition data_frame :: "(int \<times> 'a) list \<Rightarrow> 'b list \<Rightarrow> error + (int \<times> 'a \<times> 'b) list" where
  "data_frame gt det =
     (if length det = length gt then Inr (map (\<lambda>((l, g), d). (l, g, d)) (zip gt det))
      else Inl ValueError)"

text \<open>
  \<^verbatim>\<open>calculate_tpfp(detection, img_gt)\<close> (lines 393-453), in the three stages of the
  source: the candidates \<^verbatim>\<open>same_cat_gt\<close> (lines 423-424), the series \<^verbatim>\<open>overlaps\<close>
  (lines 426-441) and the reservation (lines 443-453). \<open>iou_poly\<close> is the polygon
  overlap of the external \<^verbatim>\<open>polyiou\<close> extension, a parameter here. In the oriented
  branch the \<open>det\<close> column is the one-element list
  \<^verbatim>\<open>[detection['bbox'] * len(same_cat_gt)]\<close>, the numpy array multiplied by the count;
  in the aligned branch it is \<^verbatim>\<open>[detection['bbox']] * len(same_cat_gt)\<close>, the list
  repeated.
\<close>

definition same_cat_gt :: "proposal \<Rightarrow> (int \<times> annotation) list \<Rightarrow> error + (int \<times> annotation) list" where
  "same_cat_gt detection img_gt =
     and_then (try_map (\<lambda>(l, g). item (cat_id g) 0) img_gt) (\<lambda>gt_cat_id.
       Inr (map fst (filter (\<lambda>(r, c). c = prop_cat_id detection) (zip img_gt gt_cat_id))))"

definition det_overlaps ::
  "obb_anns \<Rightarrow> (real list \<Rightarrow> real list \<Rightarrow> real) \<Rightarrow> proposal \<Rightarrow> (int \<times> annotation) list
     \<Rightarrow> error + (int \<times> fval) list" where
  "det_overlaps s iou_poly detection cands =
     (if props_oriented s then
        and_then
          (data_frame (map (\<lambda>(l, g). (l, o_bbox g)) cands)
             [map (\<lambda>x. x * real (length cands)) (bbox detection)])
          (\<lambda>df. Inr (map (\<lambda>(l, gt, det). (l, Fin (iou_poly gt det))) df))
      else
        and_then
          (data_frame (map (\<lambda>(l, g). (l, a_bbox g)) cands)
             (replicate (length cands) (bbox detection)))
          (\<lambda>df. try_map (\<lambda>(l, gt, det).
                   and_then (calculate_aligned_overlap gt det) (\<lambda>v. Inr (l, v))) df))"

definition calculate_tpfp ::
  "obb_anns \<Rightarrow> (real list \<Rightarrow> real list \<Rightarrow> real) \<Rightarrow> proposal \<Rightarrow> (int \<times> annotation) list
     \<Rightarrow> error + (int \<times> fval)" where
  "calculate_tpfp s iou_poly detection img_gt =
     and_then (same_cat_gt detection img_gt) (\<lambda>cands.
       if length cands > 0 then
         and_then (det_overlaps s iou_poly detection cands) (\<lambda>overlaps.
           let max_overlap = series_max overlaps
           in if fless (Fin (2 / 10)) max_overlap
              then and_then (series_idxmax overlaps) (\<lambda>i. Inr (i, max_overlap))
              else Inr (- 1, Fin 0))
       else Inr (- 1, Fin 0))"

text \<open>
  One overlap record \<^verbatim>\<open>[val, overlap, det['cat_id'], float(det['score'])]\<close>, a row
  of the array \<^verbatim>\<open>overlaps\<close>.
\<close>

type_synonym overlap_row = "int \<times> fval \<times> int \<times> real"

definition row_id :: "overlap_row \<Rightarrow> int" where
  "row_id r = fst r"

definition row_overlap :: "overlap_row \<Rightarrow> fval" where
  "row_overlap r = fst (snd r)"

definition row_cat :: "overlap_row \<Rightarrow> int" where
  "row_cat r = fst (snd (snd r))"

definition row_score :: "overlap_row \<Rightarrow> real" where
  "row_score r = snd (snd (snd r))"

text \<open>
  The inner loop of \<^verbatim>\<open>calculate_metrics\<close> (lines 468-474) over the detections of
  one image, threading the remaining ground truth \<open>img_gt\<close>.
\<close>

fun match_detections ::
  "obb_anns \<Rightarrow> (real list \<Rightarrow> real list \<Rightarrow> real) \<Rightarrow> proposal list \<Rightarrow> (int \<times> annotation) list
     \<Rightarrow> error + overlap_row list" where
  "match_detections s iou_poly [] img_gt = Inr []"
| "match_detections s iou_poly (det # dets) img_gt =
     and_then (calculate_tpfp s iou_poly det img_gt) (\<lambda>(val, overlap).
       and_then (if val \<noteq> - 1 then drop_label img_gt val else Inr img_gt) (\<lambda>img_gt'.
         and_then (match_detections s iou_poly dets img_gt')
           (\<lambda>rest. Inr ((val, overlap, prop_cat_id det, score det) # rest))))"

text \<open>
  The body of the outer loop (lines 459-466) for one image index: the image's
  proposals, its filtered ground truth, and the proposals sorted by
  \<^verbatim>\<open>sort_values('score')\<close>, ascending. (pandas leaves the order of equal scores to
  the sorting algorithm; the model keeps their original order.)
\<close>

definition image_overlaps ::
  "obb_anns \<Rightarrow> (real list \<Rightarrow> real list \<Rightarrow> real) \<Rightarrow> proposal list \<Rightarrow> nat
     \<Rightarrow> error + overlap_row list" where
  "image_overlaps s iou_poly props i =
     (let img_props = filter (\<lambda>p. img_idx p = i) props
      in and_then (get_anns s (Some i) None None) (\<lambda>img_gt.
           match_detections s iou_poly (sort_key score img_props) img_gt))"

text \<open>The outer loop over \<^verbatim>\<open>np.unique(self.proposals['img_idx'])\<close>.\<close>

fun collect_overlaps ::
  "obb_anns \<Rightarrow> (real list \<Rightarrow> real list \<Rightarrow> real) \<Rightarrow> proposal list \<Rightarrow> nat list
     \<Rightarrow> error + overlap_row list" where
  "collect_overlaps s iou_poly props [] = Inr []"
| "collect_overlaps s iou_poly props (i # is) =
     and_then (image_overlaps s iou_poly props i) (\<lambda>rows.
       and_then (collect_overlaps s iou_poly props is) (\<lambda>rest. Inr (rows @ rest)))"

definition unique_images :: "proposal list \<Rightarrow> nat list" where
  "unique_images props = sort (remdups (map img_idx props))"

section \<open>Precision, recall and average precision\<close>

text \<open>\<^verbatim>\<open>np.cumsum(mask).astype(np.float)\<close>: the running count of true entries.\<close>

fun cumsum_from :: "nat \<Rightarrow> bool list \<Rightarrow> real list" where
  "cumsum_from acc [] = []"
| "cumsum_from acc (b # bs) =
     real (acc + (if b then 1 else 0)) # cumsum_from (acc + (if b then 1 else 0)) bs"

definition cumsum :: "bool list \<Rightarrow> real list" where
  "cumsum bs = cumsum_from 0 bs"

text \<open>\<^verbatim>\<open>np.spacing(1)\<close>, the gap between 1.0 and the next double.\<close>

definition spacing_1 :: real where
  "spacing_1 = 1 / 2 ^ 52"

text \<open>\<^verbatim>\<open>np.average\<close> of a sequence: the sum by the count (\<^verbatim>\<open>nan\<close> for no element).\<close>

definition average :: "fval list \<Rightarrow> fval" where
  "average xs = fdiv (fsum xs) (Fin (real (length xs)))"

text \<open>
  The loop \<^verbatim>\<open>for i in range(n - 1, 0, -1): mpre[i - 1] = max(mpre[i - 1], mpre[i])\<close>
  (lines 574-575), from the right end to the left.
\<close>

fun envelope :: "fval list \<Rightarrow> fval list" where
  "envelope [] = []"
| "envelope (x # xs) = (case envelope xs of [] \<Rightarrow> [x] | y # ys \<Rightarrow> fmax x y # y # ys)"

text \<open>\<^verbatim>\<open>_average_precision(recalls, precisions, mode)\<close> on one-dimensional input
  (lines 548-592).\<close>

definition average_precision :: "fval list \<Rightarrow> fval list \<Rightarrow> string \<Rightarrow> error + fval" where
  "average_precision recalls precisions mode =
     (if length recalls \<noteq> length precisions then Inl AssertionError
      else if mode = ''area'' then
        (let mrec = [Fin 0] @ recalls @ [Fin 1];
             mpre = envelope ([Fin 0] @ precisions @ [Fin 0]);
             ind = filter (\<lambda>i. fne (mrec ! (i + 1)) (mrec ! i)) [0 ..< length mrec - 1]
         in Inr (fsum (map (\<lambda>i. fmul (fsub (mrec ! (i + 1)) (mrec ! i)) (mpre ! (i + 1))) ind)))
      else if mode = ''11points'' then
        Inr (fdiv (fsum (map (\<lambda>k. let thr = real k / 10;
                                       precs = map snd (filter (\<lambda>(r, p). fge r (Fin thr))
                                                          (zip recalls precisions))
                                   in (case precs of [] \<Rightarrow> Fin 0 | p # ps \<Rightarrow> foldl fmax p ps))
                             [0 ..< 11])) (Fin 11))
      else Inl ValueError)"

text \<open>
  A sequence of thresholds as the caller passes it: a tuple (the default
  \<^verbatim>\<open>(0.5, 0.55)\<close>) or a list.
\<close>

datatype py_seq = PyTuple "real list" | PyList "real list"

fun seq_items :: "py_seq \<Rightarrow> real list" where
  "seq_items (PyTuple ts) = ts"
| "seq_items (PyList ts) = ts"

text \<open>
  The \<open>by_class\<close> argument of \<^verbatim>\<open>_evaluate_overlaps\<close>: \<^verbatim>\<open>None\<close>, a class index, or
  (as the aggregate call of \<^verbatim>\<open>calculate_metrics\<close> passes it) the caller's sequence of
  thresholds.
\<close>

datatype by_class = NoClass | ClassIdx int | ClassSeq py_seq

text \<open>
  \<^verbatim>\<open>series == seq\<close> for a pandas series of integers and a Python sequence. A list is
  turned into an array and must have the length of the series, else \<^verbatim>\<open>ValueError\<close>.
  A tuple goes to numpy as it is: of the length of the series it is compared element by
  element, of length 1 its element is compared with every row, of any other length
  the comparison is false on every row; a series of one row takes the length of the
  tuple, which its index then refuses.
\<close>

fun series_eq_seq :: "int list \<Rightarrow> py_seq \<Rightarrow> error + bool list" where
  "series_eq_seq col (PyList ts) =
     (if length ts \<noteq> length col then Inl ValueError
      else Inr (map2 (\<lambda>f t. real_of_int f = t) col ts))"
| "series_eq_seq col (PyTuple ts) =
     (if length ts = length col then Inr (map2 (\<lambda>f t. real_of_int f = t) col ts)
      else if length ts = 1 then Inr (map (\<lambda>f. real_of_int f = ts ! 0) col)
      else if length col = 1 then Inl ValueError
      else Inr (map (\<lambda>f. False) col))"

text \<open>
  \<^verbatim>\<open>nr_gt\<close> (lines 520-530): the number of distinct index labels of the selected
  rows of the whole annotation table.
\<close>

definition first_cats :: "obb_anns \<Rightarrow> error + int list" where
  "first_cats s = try_map (\<lambda>(l, a). item (cat_id a) 0) (ann_info s)"

definition nr_gt :: "obb_anns \<Rightarrow> by_class \<Rightarrow> error + nat" where
  "nr_gt s bc =
     (case bc of
        NoClass \<Rightarrow> Inr (length (remdups (map fst (ann_info s))))
      | ClassIdx c \<Rightarrow>
          and_then (first_cats s) (\<lambda>firsts.
            Inr (length (remdups (map (fst \<circ> fst)
                   (filter (\<lambda>(r, f). f = c) (zip (ann_info s) firsts))))))
      | ClassSeq ts \<Rightarrow>
          and_then (first_cats s) (\<lambda>firsts.
            and_then (series_eq_seq firsts ts) (\<lambda>mask.
              Inr (length (remdups (map (fst \<circ> fst)
                     (filter (\<lambda>(r, m). m) (zip (ann_info s) mask))))))))"

type_synonym eval_dict = "(string \<times> fval) list"

text \<open>
  The recall and precision sequences of one threshold (lines 514-536), on the rows
  already sorted. Both quotients are of numpy arrays.
\<close>

definition recall_seq :: "overlap_row list \<Rightarrow> real \<Rightarrow> nat \<Rightarrow> fval list" where
  "recall_seq rows iou_thr n =
     (let tp_sum = cumsum (map (\<lambda>r. fge (row_overlap r) (Fin iou_thr)) rows)
      in if n > 0 then map (\<lambda>t. fdiv (Fin t) (Fin (real n))) tp_sum
         else map (\<lambda>t. Fin (t * 0)) tp_sum)"

definition precision_seq :: "overlap_row list \<Rightarrow> real \<Rightarrow> fval list" where
  "precision_seq rows iou_thr =
     (let tp_sum = cumsum (map (\<lambda>r. fge (row_overlap r) (Fin iou_thr)) rows);
          fp_sum = cumsum (map (\<lambda>r. fless (row_overlap r) (Fin iou_thr)) rows)
      in map2 (\<lambda>t f. fdiv (Fin t) (Fin (f + t + spacing_1))) tp_sum fp_sum)"

text \<open>
  One iteration of the loop of \<^verbatim>\<open>_evaluate_overlaps\<close> (lines 509-544). The array is
  re-sorted in place by \<^verbatim>\<open>argsort()[::-1]\<close> (an ascending sort, reversed) and the sorted
  array is what the next iteration starts from. \<^verbatim>\<open>np.array([])\<close>, the array of an
  empty record list, is one-dimensional and \<^verbatim>\<open>overlaps[:, 3]\<close> raises on it.
\<close>

definition evaluate_threshold ::
  "obb_anns \<Rightarrow> overlap_row list \<Rightarrow> real \<Rightarrow> by_class \<Rightarrow> error + (overlap_row list \<times> eval_dict)" where
  "evaluate_threshold s overlaps iou_thr bc =
     (if overlaps = [] then Inl IndexError
      else
        let rows = rev (sort_key row_score overlaps)
        in and_then (nr_gt s bc) (\<lambda>n.
             let recall = recall_seq rows iou_thr n;
                 precision = precision_seq rows iou_thr
             in and_then (average_precision recall precision ''area'') (\<lambda>ap.
                  Inr (rows, [(''ap'', ap), (''precision'', average precision),
                              (''recall'', average recall)]))))"

fun evaluate_loop ::
  "obb_anns \<Rightarrow> overlap_row list \<Rightarrow> real list \<Rightarrow> by_class \<Rightarrow> (real \<times> eval_dict) list
     \<Rightarrow> error + (real \<times> eval_dict) list" where
  "evaluate_loop s overlaps [] bc metrics = Inr metrics"
| "evaluate_loop s overlaps (iou_thr # thrs) bc metrics =
     and_then (evaluate_threshold s overlaps iou_thr bc) (\<lambda>(rows, entry).
       evaluate_loop s rows thrs bc (AList.update iou_thr entry metrics))"

text \<open>\<^verbatim>\<open>_evaluate_overlaps(overlaps, iou_thrs, by_class=None)\<close> (lines 506-545).\<close>

definition evaluate_overlaps ::
  "obb_anns \<Rightarrow> overlap_row list \<Rightarrow> real list \<Rightarrow> by_class \<Rightarrow> error + (real \<times> eval_dict) list" where
  "evaluate_overlaps s overlaps iou_thrs bc = evaluate_loop s overlaps iou_thrs bc []"

section \<open>The metrics report\<close>

text \<open>
  \<^verbatim>\<open>Series.value_counts()\<close>: each distinct value with its number of occurrences,
  largest count first.
\<close>

definition value_counts :: "int list \<Rightarrow> (int \<times> nat) list" where
  "value_counts xs = rev (sort_key snd (map (\<lambda>c. (c, count_list xs c)) (remdups xs)))"

datatype cls_key = Average | Class int

datatype report = PerThreshold "(real \<times> eval_dict) list" | Averaged eval_dict

text \<open>The classwise loop (lines 481-486).\<close>

fun classwise_results ::
  "obb_anns \<Rightarrow> overlap_row list \<Rightarrow> real list \<Rightarrow> int list
     \<Rightarrow> error + (cls_key \<times> (real \<times> eval_dict) list) list" where
  "classwise_results s overlaps iou_thrs [] = Inr []"
| "classwise_results s overlaps iou_thrs (class_idx # cs) =
     and_then (evaluate_overlaps s (filter (\<lambda>r. row_cat r = class_idx) overlaps) iou_thrs
                 (ClassIdx class_idx)) (\<lambda>m.
       and_then (classwise_results s overlaps iou_thrs cs)
         (\<lambda>rest. Inr ((Class class_idx, m) # rest)))"

text \<open>
  The threshold averaging (lines 493-503). \<open>add_keys\<close> is the loop
  \<^verbatim>\<open>for key in averaged_dict.keys(): averaged_dict[key] += eval_dict[key]\<close>. The
  final quotient by \<^verbatim>\<open>len(tresh_dict)\<close> has a zero divisor only when no entry was
  added, when the sums are still the Python integers 0 and the division is Python's.
\<close>

definition averaged_init :: eval_dict where
  "averaged_init = [(''accuracy'', Fin 0), (''precision'', Fin 0), (''recall'', Fin 0)]"

fun add_keys :: "string list \<Rightarrow> eval_dict \<Rightarrow> eval_dict \<Rightarrow> error + eval_dict" where
  "add_keys [] averaged_dict eval_dict = Inr averaged_dict"
| "add_keys (key # keys) averaged_dict eval_dict =
     (case map_of eval_dict key of
        None \<Rightarrow> Inl KeyError
      | Some v \<Rightarrow> add_keys keys (AList.map_entry key (\<lambda>a. fadd a v) averaged_dict) eval_dict)"

fun add_thresholds :: "(real \<times> eval_dict) list \<Rightarrow> eval_dict \<Rightarrow> error + eval_dict" where
  "add_thresholds [] averaged_dict = Inr averaged_dict"
| "add_thresholds ((t, eval_dict) # rest) averaged_dict =
     and_then (add_keys (map fst averaged_dict) averaged_dict eval_dict)
       (add_thresholds rest)"

definition average_thresholds :: "(real \<times> eval_dict) list \<Rightarrow> error + eval_dict" where
  "average_thresholds tresh_dict =
     and_then (add_thresholds tresh_dict averaged_init) (\<lambda>averaged_dict.
       try_map (\<lambda>(key, v). if length tresh_dict = 0 then Inl ZeroDivisionError
                            else Inr (key, fdiv v (Fin (real (length tresh_dict)))))
         averaged_dict)"

text \<open>\<^verbatim>\<open>calculate_metrics(iou_thrs, classwise, average_thrs)\<close> (lines 372-504).\<close>

definition calculate_metrics ::
  "obb_anns \<Rightarrow> (real list \<Rightarrow> real list \<Rightarrow> real) \<Rightarrow> py_seq \<Rightarrow> bool \<Rightarrow> bool
     \<Rightarrow> error + (cls_key \<times> report) list" where
  "calculate_metrics s iou_poly iou_thrs classwise average_thrs =
     (case proposals s of
        None \<Rightarrow> Inl TypeError
      | Some props \<Rightarrow>
          let tot_props = value_counts (map prop_cat_id props)
          in and_then (collect_overlaps s iou_poly props (unique_images props)) (\<lambda>overlaps.
               and_then
                 (if classwise then
                    (if overlaps = [] then Inl IndexError
                     else classwise_results s overlaps (seq_items iou_thrs)
                            (sort (remdups (map row_cat overlaps))))
                  else
                    and_then (evaluate_overlaps s overlaps (map (\<lambda>(c, n). real n) tot_props)
                                (ClassSeq iou_thrs))
                      (\<lambda>m. Inr [(Average, m)]))
                 (\<lambda>results_dict.
                    if average_thrs then
                      try_map (\<lambda>(cls_key, tresh_dict).
                                 and_then (average_thresholds tresh_dict)
                                   (\<lambda>a. Inr (cls_key, Averaged a))) results_dict
                    else Inr (map (\<lambda>(cls_key, tresh_dict). (cls_key, PerThreshold tresh_dict))
                                results_dict))))"

section \<open>Loading proposals\<close>

record raw_proposal =
  raw_bbox :: "real list"
  raw_cat_id :: int
  raw_img_id :: int
  raw_score :: real

record proposal_file =
  file_annotation_set :: string
  file_proposals :: "raw_proposal list"

text \<open>
  \<^verbatim>\<open>load_proposals(proposal_file)\<close> (lines 164-209) on the parsed JSON document.
  The arity assertion reads the first entry only; the flag \<open>props_oriented\<close> is set,
  never cleared. Each box is stored as \<^verbatim>\<open>np.asarray(prop['bbox'], dtype=np.float32)\<close>:
  \<open>float32\<close>, the rounding of a number to single precision, is a parameter.
\<close>

definition load_proposals :: "(real \<Rightarrow> real) \<Rightarrow> obb_anns \<Rightarrow> proposal_file \<Rightarrow> error + obb_anns" where
  "load_proposals float32 s props =
     (case img_info s of
        None \<Rightarrow> Inl AssertionError
      | Some imgs \<Rightarrow>
          and_then (index_of (annotation_sets s) (file_annotation_set props)) (\<lambda>set_idx.
          and_then (item (file_proposals props) 0) (\<lambda>first.
            let bbox_len = length (raw_bbox first)
            in if \<not> (bbox_len = 4 \<or> bbox_len = 8) then Inl AssertionError
               else
                 and_then
                   (try_map (\<lambda>prop.
                      case map_of (img_idx_lookup s) (raw_img_id prop) of
                        None \<Rightarrow> Inl KeyError
                      | Some prop_img_idx \<Rightarrow>
                          Inr \<lparr>bbox = map float32 (raw_bbox prop),
                               prop_cat_id = raw_cat_id prop,
                               img_idx = prop_img_idx, score = raw_score prop\<rparr>)
                      (file_proposals props))
                   (\<lambda>rows. Inr (s\<lparr>proposals := Some rows,
                                   props_oriented := (bbox_len = 8 \<or> props_oriented s),
                                   prop_ann_set_idx := Some set_idx\<rparr>)))))"

section \<open>Example data\<close>

text \<open>
  A small store used to exercise the theorems: three identical ground-truth boxes of
  category 1, the first on image 0 and the other two on image 1; two detections on
  image 0 (confidence 0.9 listed before confidence 0.3) and one on image 1, all
  coinciding with the ground-truth box. \<open>unit_iou\<close> stands in for the polygon overlap.
\<close>

definition gt_note :: annotation where
  "gt_note = \<lparr>a_bbox = [0, 0, 10, 10], o_bbox = [0, 0, 10, 0, 10, 10, 0, 10], cat_id = [1],
               area = 100, img_id = 100, comments = ''''\<rparr>"

definition det_note :: "nat \<Rightarrow> real \<Rightarrow> proposal" where
  "det_note i sc = \<lparr>bbox = [0, 0, 10, 10], prop_cat_id = 1, img_idx = i, score = sc\<rparr>"

definition example_store :: obb_anns where
  "example_store =
     \<lparr>annotation_sets = [''deepscores''], chosen_ann_set = SetNames [''deepscores''],
      classes_blacklist_id = [],
      ann_info = [(7, gt_note), (8, gt_note), (9, gt_note)],
      img_info = Some [\<lparr>image_id = 100, filename = ''a.png'', ann_ids = [7]\<rparr>,
                       \<lparr>image_id = 101, filename = ''b.png'', ann_ids = [8, 9]\<rparr>],
      img_idx_lookup = [(100, 0), (101, 1)],
      proposals = Some [det_note 0 (9 / 10), det_note 0 (3 / 10), det_note 1 (1 / 2)],
      props_oriented = False, prop_ann_set_idx = Some 0\<rparr>"

definition unit_iou :: "real list \<Rightarrow> real list \<Rightarrow> real" where
  "unit_iou a b = (if a = b then 1 else 0)"

text \<open>Proposal files for the loader: one entry per box, all on image id 100.\<close>

definition raw_note :: "real list \<Rightarrow> raw_proposal" where
  "raw_note b = \<lparr>raw_bbox = b, raw_cat_id = 1, raw_img_id = 100, raw_score = 1 / 2\<rparr>"

definition example_file :: "real list list \<Rightarrow> proposal_file" where
  "example_file boxes = \<lparr>file_annotation_set = ''deepscores'', file_proposals = map raw_note boxes\<rparr>"

text \<open>
  The coordinates of the example files are small integers, which single precision
  represents exactly: on them the conversion to \<^verbatim>\<open>float32\<close> is the identity.
\<close>

definition exact_float32 :: "real \<Rightarrow> real" where
  "exact_float32 x = x"

section \<open>Properties\<close>

subsection \<open>The aligned overlap\<close>

lemma and_then_simps [simp]:
  "and_then (Inl e) f = Inl e"
  "and_then (Inr v) f = f v"
  by (simp_all add: and_then_def)

lemma and_then_Inr: "and_then r f = Inr y \<longleftrightarrow> (\<exists>v. r = Inr v \<and> f v = Inr y)"
  by (cases r) simp_all

lemma py_min_pair: "num_value (py_min x [y]) = min (num_value x) (num_value y)"
  by (simp add: min_def)

lemma py_max_pair: "num_value (py_max x [y]) = max (num_value x) (num_value y)"
  by (simp add: max_def)

lemma num_value_sub: "num_value (num_sub x y) = num_value x - num_value y"
  by (simp add: num_sub_def)

lemma num_value_mul: "num_value (num_mul x y) = num_value x * num_value y"
  by (simp add: num_mul_def)

lemma truediv_nonzero:
  "num_value y \<noteq> 0 \<Longrightarrow> truediv x y = Inr (Fin (num_value x / num_value y))"
  by (simp add: truediv_def)

lemma item_four:
  "item [x0, x1, x2, x3] 0 = Inr x0"
  "item [x0, x1, x2, x3] 1 = Inr x1"
  "item [x0, x1, x2, x3] 2 = Inr x2"
  "item [x0, x1, x2, x3] 3 = Inr x3"
  by (simp_all add: item_def)

text \<open>
  C3, as the function does not behave: on the pair of boxes \<open>[0, 0, 0, 10]\<close> and
  \<open>[0, 0, 0, 10]\<close> both intersection extents are non-negative and the call raises
  \<^verbatim>\<open>ZeroDivisionError\<close> (every operand of the quotient is a Python number, and the
  bounding-extent product is zero); on \<open>[0, 0, 0, 10]\<close> and \<open>[0, 1, 0, 9]\<close> the
  quotient is numpy's and the call returns \<^verbatim>\<open>nan\<close>. Neither is the quotient of the
  products.
\<close>

theorem aligned_overlap_zero_extent_counterexample:
  "spec_dx_int [0, 0, 0, 10] [0, 0, 0, 10] \<ge> 0
   \<and> spec_dy_int [0, 0, 0, 10] [0, 0, 0, 10] \<ge> 0
   \<and> calculate_aligned_overlap [0, 0, 0, 10] [0, 0, 0, 10] = Inl ZeroDivisionError
   \<and> spec_dx_int [0, 0, 0, 10] [0, 1, 0, 9] \<ge> 0
   \<and> spec_dy_int [0, 0, 0, 10] [0, 1, 0, 9] \<ge> 0
   \<and> calculate_aligned_overlap [0, 0, 0, 10] [0, 1, 0, 9] = Inr NaN"
  by (simp add: spec_dx_int_def spec_dy_int_def calculate_aligned_overlap_def item_def
      num_sub_def num_mul_def truediv_def Let_def)

text \<open>
  C3, amended. On every pair of four-coordinate boxes the aligned overlap is the quotient
  \<open>(dx_int * dy_int) / (dx_ov * dy_ov)\<close> of the product of the intersection extents by
  the product of the bounding extents when both intersection extents are non-negative
  and the bounding-extent product is not zero, and it is 0 when an intersection extent
  is negative. The denominator is the product of the bounding extents, not the area of
  the union.
\<close>

theorem aligned_overlap_formula:
  fixes ax0 ay0 ax1 ay1 bx0 by0 bx1 by1 :: real
  defines "a \<equiv> [ax0, ay0, ax1, ay1]" and "b \<equiv> [bx0, by0, bx1, by1]"
  shows "(spec_dx_int a b \<ge> 0 \<and> spec_dy_int a b \<ge> 0 \<and> spec_dx_ov a b * spec_dy_ov a b \<noteq> 0
            \<longrightarrow> calculate_aligned_overlap a b
                  = Inr (Fin ((spec_dx_int a b * spec_dy_int a b) /
                              (spec_dx_ov a b * spec_dy_ov a b))))
       \<and> (\<not> (spec_dx_int a b \<ge> 0 \<and> spec_dy_int a b \<ge> 0)
            \<longrightarrow> calculate_aligned_overlap a b = Inr (Fin 0))"
  unfolding a_def b_def calculate_aligned_overlap_def item_four and_then_simps Let_def
    spec_dx_int_def spec_dy_int_def spec_dx_ov_def spec_dy_ov_def
  by (simp add: num_value_sub num_value_mul py_min_pair py_max_pair truediv_nonzero
      del: py_min.simps py_max.simps)

theorem aligned_overlap_formula_witness:
  "spec_dx_int [0, 0, 10, 10] [0, 0, 10, 100] \<ge> 0
   \<and> spec_dy_int [0, 0, 10, 10] [0, 0, 10, 100] \<ge> 0
   \<and> spec_dx_ov [0, 0, 10, 10] [0, 0, 10, 100] * spec_dy_ov [0, 0, 10, 10] [0, 0, 10, 100] \<noteq> 0
   \<and> calculate_aligned_overlap [0, 0, 10, 10] [0, 0, 10, 100] = Inr (Fin (1 / 10))
   \<and> \<not> spec_dx_int [0, 0, 10, 10] [20, 20, 30, 30] \<ge> 0
   \<and> calculate_aligned_overlap [0, 0, 10, 10] [20, 20, 30, 30] = Inr (Fin 0)"
  using aligned_overlap_formula[of 0 0 10 10 0 0 10 100]
    aligned_overlap_formula[of 0 0 10 10 20 20 30 30]
  by (simp add: spec_dx_int_def spec_dy_int_def spec_dx_ov_def spec_dy_ov_def)

subsection \<open>Results, maxima and label bookkeeping\<close>

lemma try_map_length: "try_map f xs = Inr ys \<Longrightarrow> length ys = length xs"
  by (induction xs arbitrary: ys) (auto simp: and_then_Inr)

lemma try_map_nth: "try_map f xs = Inr ys \<Longrightarrow> i < length xs \<Longrightarrow> f (xs ! i) = Inr (ys ! i)"
proof (induction xs arbitrary: ys i)
  case Nil then show ?case by simp
next
  case (Cons x xs)
  then obtain y ys' where y: "f x = Inr y" "try_map f xs = Inr ys'" "ys = y # ys'"
    by (auto simp: and_then_Inr)
  show ?case using Cons.IH[OF y(2)] Cons.prems(2) y by (cases i) auto
qed

lemma fless_irrefl: "\<not> fless x x"
  by (cases x) auto

lemma fless_NaN [simp]: "\<not> fless NaN y" "\<not> fless x NaN"
  by (cases y, auto) (cases x, auto)

lemma fless_trans: "fless x y \<Longrightarrow> fless y z \<Longrightarrow> fless x z"
  by (cases x; cases y; cases z) auto

lemma fless_asym: "fless x y \<Longrightarrow> \<not> fless y x"
  by (cases x; cases y) auto

lemma fless_total: "x \<noteq> NaN \<Longrightarrow> y \<noteq> NaN \<Longrightarrow> fless x y \<or> x = y \<or> fless y x"
  by (cases x; cases y) auto

lemma fless_le_trans:
  "x \<noteq> NaN \<Longrightarrow> y \<noteq> NaN \<Longrightarrow> \<not> fless y x \<Longrightarrow> fless y z \<Longrightarrow> fless x z"
  using fless_total[of x y] fless_trans[of x y z] by auto

lemma fless_less_le:
  "x \<noteq> NaN \<Longrightarrow> y \<noteq> NaN \<Longrightarrow> fless z x \<Longrightarrow> \<not> fless y x \<Longrightarrow> fless z y"
  using fless_total[of x y] fless_trans[of z x y] by auto

lemma series_best_None: "series_best ovs = None \<longleftrightarrow> (\<forall>r \<in> set ovs. snd r = NaN)"
  by (induction ovs) (auto split: option.splits)

lemma series_best_first:
  "series_best ovs = Some b
     \<Longrightarrow> \<exists>k < length ovs. ovs ! k = b \<and> snd b \<noteq> NaN
           \<and> (\<forall>j < length ovs. \<not> fless (snd b) (snd (ovs ! j)))
           \<and> (\<forall>j < k. \<not> fge (snd (ovs ! j)) (snd b))"
proof (induction ovs arbitrary: b)
  case Nil
  then show ?case by simp
next
  case (Cons r rs)
  show ?case
  proof (cases "snd r = NaN")
    case True
    with Cons.prems have "series_best rs = Some b" by simp
    from Cons.IH[OF this] obtain k where k: "k < length rs" "rs ! k = b" "snd b \<noteq> NaN"
      "\<forall>j < length rs. \<not> fless (snd b) (snd (rs ! j))"
      "\<forall>j < k. \<not> fge (snd (rs ! j)) (snd b)" by blast
    show ?thesis
    proof (intro exI[of _ "Suc k"] conjI allI impI)
      show "Suc k < length (r # rs)" using k(1) by simp
      show "(r # rs) ! Suc k = b" using k(2) by simp
      show "snd b \<noteq> NaN" by (rule k(3))
      fix j assume "j < length (r # rs)"
      then show "\<not> fless (snd b) (snd ((r # rs) ! j))" using True k(4) by (cases j) auto
    next
      fix j assume "j < Suc k"
      then show "\<not> fge (snd ((r # rs) ! j)) (snd b)"
        using True k(5) by (cases j) (auto simp: fge_def)
    qed
  next
    case nn: False
    show ?thesis
    proof (cases "series_best rs")
      case None
      with nn Cons.prems have b: "b = r" by simp
      have all: "\<forall>x \<in> set rs. snd x = NaN" using None series_best_None by blast
      show ?thesis
      proof (intro exI[of _ 0] conjI allI impI)
        show "0 < length (r # rs)" by simp
        show "(r # rs) ! 0 = b" using b by simp
        show "snd b \<noteq> NaN" using b nn by simp
        fix j assume "j < length (r # rs)"
        then show "\<not> fless (snd b) (snd ((r # rs) ! j))"
          using b all fless_irrefl by (cases j) auto
      next
        fix j :: nat assume "j < 0"
        then show "\<not> fge (snd ((r # rs) ! j)) (snd b)" by simp
      qed
    next
      case (Some b')
      from Cons.IH[OF Some] obtain k where k: "k < length rs" "rs ! k = b'" "snd b' \<noteq> NaN"
        "\<forall>j < length rs. \<not> fless (snd b') (snd (rs ! j))"
        "\<forall>j < k. \<not> fge (snd (rs ! j)) (snd b')" by blast
      show ?thesis
      proof (cases "fless (snd r) (snd b')")
        case True
        with nn Some Cons.prems have b: "b = b'" by simp
        show ?thesis
        proof (intro exI[of _ "Suc k"] conjI allI impI)
          show "Suc k < length (r # rs)" using k(1) by simp
          show "(r # rs) ! Suc k = b" using k(2) b by simp
          show "snd b \<noteq> NaN" using k(3) b by simp
          fix j assume "j < length (r # rs)"
          then show "\<not> fless (snd b) (snd ((r # rs) ! j))"
            using b True k(4) fless_asym by (cases j) auto
        next
          fix j assume "j < Suc k"
          then show "\<not> fge (snd ((r # rs) ! j)) (snd b)"
            using b True k(5) by (cases j) (auto simp: fge_def)
        qed
      next
        case False
        with nn Some Cons.prems have b: "b = r" by simp
        show ?thesis
        proof (intro exI[of _ 0] conjI allI impI)
          show "0 < length (r # rs)" by simp
          show "(r # rs) ! 0 = b" using b by simp
          show "snd b \<noteq> NaN" using b nn by simp
          fix j assume j: "j < length (r # rs)"
          show "\<not> fless (snd b) (snd ((r # rs) ! j))"
          proof (cases j)
            case 0
            then show ?thesis using b fless_irrefl by simp
          next
            case (Suc j')
            with j have "\<not> fless (snd b') (snd (rs ! j'))" using k(4) by simp
            moreover have "fless (snd r) (snd (rs ! j')) \<Longrightarrow> fless (snd b') (snd (rs ! j'))"
              using fless_le_trans[OF k(3) nn False] .
            ultimately show ?thesis using b Suc by auto
          qed
        next
          fix j :: nat assume "j < 0"
          then show "\<not> fge (snd ((r # rs) ! j)) (snd b)" by simp
        qed
      qed
    qed
  qed
qed

lemma series_best_exceeds:
  assumes "series_best ovs = Some b"
  shows "fless t (snd b) \<longleftrightarrow> (\<exists>j < length ovs. fless t (snd (ovs ! j)))"
proof
  from series_best_first[OF assms] obtain k where k: "k < length ovs" "ovs ! k = b"
    "snd b \<noteq> NaN" "\<forall>j < length ovs. \<not> fless (snd b) (snd (ovs ! j))" by blast
  show "fless t (snd b) \<Longrightarrow> \<exists>j < length ovs. fless t (snd (ovs ! j))"
    using k(1,2) by auto
  assume "\<exists>j < length ovs. fless t (snd (ovs ! j))"
  then obtain j where j: "j < length ovs" "fless t (snd (ovs ! j))" by blast
  then have nn: "snd (ovs ! j) \<noteq> NaN" by auto
  from k(4) j(1) have "\<not> fless (snd b) (snd (ovs ! j))" by blast
  from fless_less_le[OF nn k(3) j(2) this] show "fless t (snd b)" .
qed

lemma try_map_labels:
  "try_map (\<lambda>(l, gt, d). and_then (F gt d) (\<lambda>v. Inr (l, v))) df = Inr ovs
     \<Longrightarrow> map fst ovs = map fst df"
  by (induction df arbitrary: ovs) (auto simp: and_then_Inr split: prod.splits)

lemma data_frame_labels: "data_frame gt det = Inr df \<Longrightarrow> map fst df = map fst gt"
  by (auto simp: data_frame_def zip_map_fst_snd map_fst_zip split: if_splits prod.splits
      intro!: nth_equalityI)

lemma det_overlaps_labels:
  assumes "det_overlaps s iou_poly det cands = Inr ovs"
  shows "map fst ovs = map fst cands"
proof (cases "props_oriented s")
  case True
  with assms obtain df where df: "data_frame (map (\<lambda>(l, g). (l, o_bbox g)) cands)
             [map (\<lambda>x. x * real (length cands)) (bbox det)] = Inr df"
    "ovs = map (\<lambda>(l, gt, det). (l, Fin (iou_poly gt det))) df"
    by (auto simp: det_overlaps_def and_then_Inr)
  have "map fst ovs = map fst df" using df(2) by (auto split: prod.splits)
  also have "\<dots> = map fst (map (\<lambda>(l, g). (l, o_bbox g)) cands)"
    using data_frame_labels[OF df(1)] .
  also have "\<dots> = map fst cands" by (auto split: prod.splits)
  finally show ?thesis .
next
  case False
  with assms obtain df where df: "data_frame (map (\<lambda>(l, g). (l, a_bbox g)) cands)
             (replicate (length cands) (bbox det)) = Inr df"
    "try_map (\<lambda>(l, gt, d). and_then (calculate_aligned_overlap gt d) (\<lambda>v. Inr (l, v))) df = Inr ovs"
    by (auto simp: det_overlaps_def and_then_Inr)
  have "map fst ovs = map fst df" using try_map_labels[OF df(2)] .
  also have "\<dots> = map fst (map (\<lambda>(l, g). (l, a_bbox g)) cands)"
    using data_frame_labels[OF df(1)] .
  also have "\<dots> = map fst cands" by (auto split: prod.splits)
  finally show ?thesis .
qed

lemma same_cat_gt_subset:
  assumes "same_cat_gt det img_gt = Inr cands"
  shows "set cands \<subseteq> set img_gt"
proof -
  from assms obtain cs where cs: "try_map (\<lambda>(l, g). item (cat_id g) 0) img_gt = Inr cs"
    "cands = map fst (filter (\<lambda>(r, c). c = prop_cat_id det) (zip img_gt cs))"
    by (auto simp: same_cat_gt_def and_then_Inr)
  show ?thesis unfolding cs(2) by (auto dest: set_zip_leftD)
qed

lemma row_simps:
  "row_id (a, b, c, d) = a" "row_overlap (a, b, c, d) = b"
  "row_cat (a, b, c, d) = c" "row_score (a, b, c, d) = d"
  by (simp_all add: row_id_def row_overlap_def row_cat_def row_score_def)

lemma count_list_distinct: "distinct xs \<Longrightarrow> count_list xs x \<le> 1"
  by (induction xs) (auto simp: count_list_0_iff)

subsection \<open>The example store, evaluated\<close>

lemmas example_defs = gt_note_def det_note_def example_store_def unit_iou_def

lemma example_gt0: "get_anns example_store (Some 0) None None = Inr [(7, gt_note)]"
  by (simp add: example_defs get_anns_def xor_args_def item_def get_ann_ids_def filter_ids_def)

lemma example_gt1: "get_anns example_store (Some 1) None None = Inr [(8, gt_note), (9, gt_note)]"
  by (simp add: example_defs get_anns_def xor_args_def item_def get_ann_ids_def filter_ids_def)

lemma example_same_cat:
  "same_cat_gt (det_note i sc) [(8, gt_note), (9, gt_note)] = Inr [(8, gt_note), (9, gt_note)]"
  "same_cat_gt (det_note i sc) [(7, gt_note)] = Inr [(7, gt_note)]"
  "same_cat_gt (det_note i sc) [] = Inr []"
  by (simp_all add: example_defs same_cat_gt_def item_def)

lemma example_overlap:
  "calculate_aligned_overlap [0, 0, 10, 10] [0, 0, 10, 10] = Inr (Fin 1)"
  "calculate_aligned_overlap [0, 0, 10, 10] [0, 0, 10, 100] = Inr (Fin (1 / 10))"
  "calculate_aligned_overlap [0, 0, 0, 10] [0, 1, 0, 9] = Inr NaN"
  by (simp_all add: calculate_aligned_overlap_def item_def truediv_def num_sub_def num_mul_def
      Let_def)

lemma example_det_overlaps:
  "det_overlaps example_store unit_iou (det_note i sc) [(8, gt_note), (9, gt_note)]
     = Inr [(8, Fin 1), (9, Fin 1)]"
  "det_overlaps example_store unit_iou (det_note i sc) [(7, gt_note)] = Inr [(7, Fin 1)]"
  by (simp_all add: example_defs det_overlaps_def data_frame_def example_overlap)

lemma example_tpfp:
  "calculate_tpfp example_store unit_iou (det_note i sc) [(8, gt_note), (9, gt_note)]
     = Inr (8, Fin 1)"
  "calculate_tpfp example_store unit_iou (det_note i sc) [(7, gt_note)] = Inr (7, Fin 1)"
  "calculate_tpfp example_store unit_iou (det_note i sc) [] = Inr (- 1, Fin 0)"
  by (simp_all add: calculate_tpfp_def example_same_cat example_det_overlaps series_max_def
      series_idxmax_def)

lemma example_image0:
  "image_overlaps example_store unit_iou [det_note 0 (9 / 10), det_note 0 (3 / 10), det_note 1 (1 / 2)] 0
     = Inr [(7, Fin 1, 1, 3 / 10), (- 1, Fin 0, 1, 9 / 10)]"
  by (simp add: image_overlaps_def example_gt0 example_tpfp drop_label_def)
     (simp add: det_note_def example_tpfp[unfolded det_note_def] drop_label_def)

lemma example_low_overlap:
  "det_overlaps example_store unit_iou ((det_note 1 (1 / 2))\<lparr>bbox := [0, 0, 10, 100]\<rparr>)
      [(8, gt_note), (9, gt_note)] = Inr [(8, Fin (1 / 10)), (9, Fin (1 / 10))]"
  by (simp add: example_defs det_overlaps_def data_frame_def example_overlap)

lemma example_nan_overlap:
  "det_overlaps example_store unit_iou ((det_note 1 (1 / 2))\<lparr>bbox := [0, 1, 0, 9]\<rparr>)
      [(8, gt_note\<lparr>a_bbox := [0, 0, 0, 10]\<rparr>)] = Inr [(8, NaN)]"
  by (simp add: example_defs det_overlaps_def data_frame_def example_overlap)

lemma example_same_cat_other:
  "same_cat_gt ((det_note 1 (1 / 2))\<lparr>prop_cat_id := 2\<rparr>) [(8, gt_note), (9, gt_note)] = Inr []"
  "same_cat_gt ((det_note 1 (1 / 2))\<lparr>bbox := [0, 0, 10, 100]\<rparr>) [(8, gt_note), (9, gt_note)]
     = Inr [(8, gt_note), (9, gt_note)]"
  "same_cat_gt ((det_note 1 (1 / 2))\<lparr>bbox := [0, 1, 0, 9]\<rparr>) [(8, gt_note\<lparr>a_bbox := [0, 0, 0, 10]\<rparr>)]
     = Inr [(8, gt_note\<lparr>a_bbox := [0, 0, 0, 10]\<rparr>)]"
  by (simp_all add: example_defs same_cat_gt_def item_def)

subsection \<open>Reservation of ground truth\<close>

text \<open>
  C5. Let \<open>cands\<close> be the same-category candidates of a detection and \<open>ovs\<close> their
  computed overlaps (an overlap may be \<^verbatim>\<open>nan\<close>). With no candidate the result is
  (-1, 0). With candidates none of whose overlaps is above 0.2 (at most 0.2, positive or
  not, or \<^verbatim>\<open>nan\<close>) the result is (-1, 0). With an overlap above 0.2 the result is
  the id of a candidate together with its overlap, which is above 0.2, is exceeded by no
  other candidate's overlap, and is not reached by any earlier candidate in iteration
  order: the first candidate that attains the maximum. The id not being the sentinel
  -1, the loop goes on with every row of that id removed from the image's remaining
  ground truth.
\<close>

theorem tpfp_reservation:
  assumes cands: "same_cat_gt det img_gt = Inr cands"
  shows "(cands = [] \<longrightarrow> calculate_tpfp s iou_poly det img_gt = Inr (- 1, Fin 0))
       \<and> (cands \<noteq> [] \<and> det_overlaps s iou_poly det cands = Inr ovs
            \<and> (\<forall>j < length cands. \<not> fless (Fin (2 / 10)) (snd (ovs ! j)))
            \<longrightarrow> calculate_tpfp s iou_poly det img_gt = Inr (- 1, Fin 0))
       \<and> (cands \<noteq> [] \<and> det_overlaps s iou_poly det cands = Inr ovs
            \<and> (\<exists>j < length cands. fless (Fin (2 / 10)) (snd (ovs ! j)))
            \<longrightarrow> (\<exists>k < length cands.
                   calculate_tpfp s iou_poly det img_gt = Inr (fst (cands ! k), snd (ovs ! k))
                 \<and> fless (Fin (2 / 10)) (snd (ovs ! k))
                 \<and> (\<forall>j < length cands. \<not> fless (snd (ovs ! k)) (snd (ovs ! j)))
                 \<and> (\<forall>j < k. \<not> fge (snd (ovs ! j)) (snd (ovs ! k)))
                 \<and> (fst (cands ! k) \<noteq> - 1 \<longrightarrow>
                      match_detections s iou_poly (det # dets) img_gt =
                        and_then (match_detections s iou_poly dets
                                    (filter (\<lambda>r. fst r \<noteq> fst (cands ! k)) img_gt))
                          (\<lambda>rest. Inr ((fst (cands ! k), snd (ovs ! k), prop_cat_id det,
                                         score det) # rest)))))"
proof (intro conjI impI)
  assume "cands = []"
  then show "calculate_tpfp s iou_poly det img_gt = Inr (- 1, Fin 0)"
    using cands by (simp add: calculate_tpfp_def)
next
  assume a: "cands \<noteq> [] \<and> det_overlaps s iou_poly det cands = Inr ovs
            \<and> (\<forall>j < length cands. \<not> fless (Fin (2 / 10)) (snd (ovs ! j)))"
  then have len: "length ovs = length cands"
    using det_overlaps_labels map_eq_imp_length_eq by blast
  have "\<not> fless (Fin (2 / 10)) (series_max ovs)"
  proof (cases "series_best ovs")
    case None
    then show ?thesis by (simp add: series_max_def)
  next
    case (Some b)
    from series_best_exceeds[OF Some, of "Fin (2 / 10)"] a len show ?thesis
      by (simp add: series_max_def Some)
  qed
  then show "calculate_tpfp s iou_poly det img_gt = Inr (- 1, Fin 0)"
    using cands a by (simp add: calculate_tpfp_def Let_def)
next
  assume a: "cands \<noteq> [] \<and> det_overlaps s iou_poly det cands = Inr ovs
            \<and> (\<exists>j < length cands. fless (Fin (2 / 10)) (snd (ovs ! j)))"
  then have labels: "map fst ovs = map fst cands" using det_overlaps_labels by blast
  then have len: "length ovs = length cands" using map_eq_imp_length_eq by blast
  from a len obtain j where j: "j < length ovs" "fless (Fin (2 / 10)) (snd (ovs ! j))" by auto
  then have "snd (ovs ! j) \<noteq> NaN" by auto
  moreover have "ovs ! j \<in> set ovs" using j(1) by simp
  ultimately have "series_best ovs \<noteq> None" unfolding series_best_None by blast
  then obtain b where b: "series_best ovs = Some b" by blast
  from series_best_first[OF b] obtain k where k: "k < length ovs" "ovs ! k = b"
    "\<forall>j < length ovs. \<not> fless (snd b) (snd (ovs ! j))"
    "\<forall>j < k. \<not> fge (snd (ovs ! j)) (snd b)" by blast
  have ex: "fless (Fin (2 / 10)) (snd b)"
    using series_best_exceeds[OF b, of "Fin (2 / 10)"] j by blast
  have lab: "fst b = fst (cands ! k)"
    using labels k(1,2) len by (metis nth_map)
  have tp: "calculate_tpfp s iou_poly det img_gt = Inr (fst (cands ! k), snd (ovs ! k))"
    using cands a b ex lab k(2)
    by (simp add: calculate_tpfp_def Let_def series_max_def series_idxmax_def)
  have mem: "fst (cands ! k) \<in> fst ` set img_gt"
    using same_cat_gt_subset[OF cands] k(1) len by (metis image_eqI nth_mem subsetD)
  have step: "fst (cands ! k) \<noteq> - 1 \<longrightarrow>
      match_detections s iou_poly (det # dets) img_gt =
        and_then (match_detections s iou_poly dets (filter (\<lambda>r. fst r \<noteq> fst (cands ! k)) img_gt))
          (\<lambda>rest. Inr ((fst (cands ! k), snd (ovs ! k), prop_cat_id det, score det) # rest))"
    using tp mem by (simp add: drop_label_def)
  show "\<exists>k < length cands.
          calculate_tpfp s iou_poly det img_gt = Inr (fst (cands ! k), snd (ovs ! k))
        \<and> fless (Fin (2 / 10)) (snd (ovs ! k))
        \<and> (\<forall>j < length cands. \<not> fless (snd (ovs ! k)) (snd (ovs ! j)))
        \<and> (\<forall>j < k. \<not> fge (snd (ovs ! j)) (snd (ovs ! k)))
        \<and> (fst (cands ! k) \<noteq> - 1 \<longrightarrow>
              match_detections s iou_poly (det # dets) img_gt =
                and_then (match_detections s iou_poly dets
                            (filter (\<lambda>r. fst r \<noteq> fst (cands ! k)) img_gt))
                  (\<lambda>rest. Inr ((fst (cands ! k), snd (ovs ! k), prop_cat_id det,
                                 score det) # rest)))"
    using k len tp ex step by (intro exI[of _ k]) simp
qed

lemma calculate_tpfp_label:
  assumes "calculate_tpfp s iou_poly det img_gt = Inr (v, ov)"
  shows "v = - 1 \<or> v \<in> fst ` set img_gt"
proof -
  from assms obtain cands where cands: "same_cat_gt det img_gt = Inr cands"
    by (auto simp: calculate_tpfp_def and_then_Inr)
  show ?thesis
  proof (cases "cands = []")
    case True
    then show ?thesis using assms cands by (simp add: calculate_tpfp_def)
  next
    case False
    with assms cands obtain ovs where ovs: "det_overlaps s iou_poly det cands = Inr ovs"
      by (auto simp: calculate_tpfp_def and_then_Inr)
    have labels: "map fst ovs = map fst cands" using det_overlaps_labels[OF ovs] .
    then have len: "length ovs = length cands" using map_eq_imp_length_eq by blast
    show ?thesis
    proof (cases "fless (Fin (2 / 10)) (series_max ovs)")
      case True
      then obtain b where b: "series_best ovs = Some b"
        by (cases "series_best ovs") (auto simp: series_max_def)
      from series_best_first[OF b] obtain k where k: "k < length ovs" "ovs ! k = b" by blast
      have "fst b = fst (cands ! k)" using labels k len by (metis nth_map)
      moreover have "v = fst b"
        using assms cands ovs False True b
        by (simp add: calculate_tpfp_def Let_def series_idxmax_def)
      moreover have "cands ! k \<in> set img_gt"
        using same_cat_gt_subset[OF cands] k(1) len by auto
      ultimately show ?thesis by auto
    next
      case False
      then show ?thesis using assms cands ovs \<open>cands \<noteq> []\<close>
        by (simp add: calculate_tpfp_def Let_def)
    qed
  qed
qed

lemma match_detections_ids:
  "match_detections s iou_poly dets img_gt = Inr rows
     \<Longrightarrow> \<forall>r \<in> set rows. row_id r = - 1 \<or> row_id r \<in> fst ` set img_gt"
proof (induction dets arbitrary: img_gt rows)
  case Nil
  then show ?case by simp
next
  case (Cons det dets)
  from Cons.prems obtain v ov gt' rest where
    tp: "calculate_tpfp s iou_poly det img_gt = Inr (v, ov)"
    and dr: "(if v \<noteq> - 1 then drop_label img_gt v else Inr img_gt) = Inr gt'"
    and rec: "match_detections s iou_poly dets gt' = Inr rest"
    and rows: "rows = (v, ov, prop_cat_id det, score det) # rest"
    by (auto simp: and_then_Inr split: prod.splits)
  have sub: "fst ` set gt' \<subseteq> fst ` set img_gt"
    using dr by (auto simp: drop_label_def split: if_splits)
  have "\<forall>r \<in> set rest. row_id r = - 1 \<or> row_id r \<in> fst ` set img_gt"
    using Cons.IH[OF rec] sub by blast
  moreover have "v = - 1 \<or> v \<in> fst ` set img_gt" using calculate_tpfp_label[OF tp] .
  ultimately show ?case unfolding rows by (auto simp: row_simps)
qed

lemma match_detections_distinct:
  "match_detections s iou_poly dets img_gt = Inr rows
     \<Longrightarrow> distinct (filter (\<lambda>v. v \<noteq> - 1) (map row_id rows))"
proof (induction dets arbitrary: img_gt rows)
  case Nil
  then show ?case by simp
next
  case (Cons det dets)
  from Cons.prems obtain v ov gt' rest where
    tp: "calculate_tpfp s iou_poly det img_gt = Inr (v, ov)"
    and dr: "(if v \<noteq> - 1 then drop_label img_gt v else Inr img_gt) = Inr gt'"
    and rec: "match_detections s iou_poly dets gt' = Inr rest"
    and rows: "rows = (v, ov, prop_cat_id det, score det) # rest"
    by (auto simp: and_then_Inr split: prod.splits)
  have IH: "distinct (filter (\<lambda>v. v \<noteq> - 1) (map row_id rest))" using Cons.IH[OF rec] .
  show ?case
  proof (cases "v = - 1")
    case True
    then show ?thesis using IH rows by (simp add: row_simps)
  next
    case False
    then have "v \<notin> fst ` set gt'" using dr by (auto simp: drop_label_def split: if_splits)
    then have "v \<notin> set (map row_id rest)"
      using match_detections_ids[OF rec] False by auto
    then show ?thesis using IH rows False by (simp add: row_simps)
  qed
qed

subsection \<open>One claim per ground-truth instance\<close>

text \<open>
  C6. In the overlap records of one image, every ground-truth annotation id (any id
  other than the sentinel -1) is the matched id of at most one detection.
\<close>

theorem image_gt_claimed_once:
  assumes "image_overlaps s iou_poly props i = Inr rows" and "g \<noteq> - 1"
  shows "length (filter (\<lambda>r. row_id r = g) rows) \<le> 1"
proof -
  from assms(1) obtain img_gt where
    "match_detections s iou_poly (sort_key score (filter (\<lambda>p. img_idx p = i) props)) img_gt = Inr rows"
    by (auto simp: image_overlaps_def and_then_Inr)
  then have d: "distinct (filter (\<lambda>v. v \<noteq> - 1) (map row_id rows))"
    by (rule match_detections_distinct)
  have "length (filter (\<lambda>r. row_id r = g) rows) = count_list (map row_id rows) g"
    by (induction rows) auto
  also have "\<dots> = count_list (filter (\<lambda>v. v \<noteq> - 1) (map row_id rows)) g"
    using assms(2) by (induction rows) auto
  also have "\<dots> \<le> 1" using d by (rule count_list_distinct)
  finally show ?thesis .
qed

lemma match_detections_columns:
  "match_detections s iou_poly dets img_gt = Inr rows
     \<Longrightarrow> map row_score rows = map score dets \<and> map row_cat rows = map prop_cat_id dets"
proof (induction dets arbitrary: img_gt rows)
  case Nil
  then show ?case by simp
next
  case (Cons det dets)
  from Cons.prems obtain v ov gt' rest where
    rec: "match_detections s iou_poly dets gt' = Inr rest"
    and rows: "rows = (v, ov, prop_cat_id det, score det) # rest"
    by (auto simp: and_then_Inr split: prod.splits)
  show ?case using Cons.IH[OF rec] rows by (simp add: row_simps)
qed

lemma match_detections_prefix:
  "match_detections s iou_poly (lo @ hi) img_gt = Inr rows
     \<Longrightarrow> match_detections s iou_poly lo img_gt = Inr (take (length lo) rows)"
proof (induction lo arbitrary: img_gt rows)
  case Nil
  then show ?case by simp
next
  case (Cons det lo)
  from Cons.prems obtain v ov gt' rest where
    tp: "calculate_tpfp s iou_poly det img_gt = Inr (v, ov)"
    and dr: "(if v \<noteq> - 1 then drop_label img_gt v else Inr img_gt) = Inr gt'"
    and rec: "match_detections s iou_poly (lo @ hi) gt' = Inr rest"
    and rows: "rows = (v, ov, prop_cat_id det, score det) # rest"
    by (auto simp: and_then_Inr split: prod.splits)
  show ?case using Cons.IH[OF rec] tp dr rows by simp
qed

lemma map_insort_key: "map f (insort_key f x ys) = insort (f x) (map f ys)"
  by (induction ys) auto

lemma map_sort_key: "map f (sort_key f xs) = sort (map f xs)"
  by (induction xs) (auto simp: map_insort_key)

subsection \<open>Matching order\<close>

text \<open>
  C4. The records of one image come out in ascending confidence order: their scores
  are the sorted scores of the image's detections. The records of the \<open>k\<close>
  lowest-confidence detections are exactly what matching those \<open>k\<close> alone against
  the image's full ground truth gives, so a lower-confidence detection claims its
  ground truth before any higher-confidence detection is looked at.
\<close>

theorem ascending_confidence_order:
  assumes "image_overlaps s iou_poly props i = Inr rows"
  shows "map row_score rows = sort (map score (filter (\<lambda>p. img_idx p = i) props))
       \<and> (\<exists>img_gt. get_anns s (Some i) None None = Inr img_gt
            \<and> (\<forall>k. match_detections s iou_poly
                        (take k (sort_key score (filter (\<lambda>p. img_idx p = i) props))) img_gt
                      = Inr (take k rows)))"
proof -
  let ?dets = "sort_key score (filter (\<lambda>p. img_idx p = i) props)"
  from assms obtain img_gt where gt: "get_anns s (Some i) None None = Inr img_gt"
    and m: "match_detections s iou_poly ?dets img_gt = Inr rows"
    by (auto simp: image_overlaps_def and_then_Inr)
  have cols: "map row_score rows = map score ?dets"
    using match_detections_columns[OF m] by simp
  then have len: "length rows = length ?dets" using map_eq_imp_length_eq by blast
  have "match_detections s iou_poly (take k ?dets) img_gt = Inr (take k rows)" for k
  proof -
    have "match_detections s iou_poly (take k ?dets @ drop k ?dets) img_gt = Inr rows"
      using m by simp
    from match_detections_prefix[OF this] show ?thesis using len by (simp add: min_def)
  qed
  with gt cols show ?thesis by (auto simp: map_sort_key)
qed

subsection \<open>The matcher on the example store\<close>

theorem tpfp_reservation_witness:
  "same_cat_gt (det_note 1 (1 / 2)) [(8, gt_note), (9, gt_note)] = Inr [(8, gt_note), (9, gt_note)]
   \<and> det_overlaps example_store unit_iou (det_note 1 (1 / 2)) [(8, gt_note), (9, gt_note)]
       = Inr [(8, Fin 1), (9, Fin 1)]
   \<and> calculate_tpfp example_store unit_iou (det_note 1 (1 / 2)) [(8, gt_note), (9, gt_note)]
       = Inr (8, Fin 1)
   \<and> match_detections example_store unit_iou [det_note 1 (1 / 2)] [(8, gt_note), (9, gt_note)]
       = Inr [(8, Fin 1, 1, 1 / 2)]
   \<and> det_overlaps example_store unit_iou ((det_note 1 (1 / 2))\<lparr>bbox := [0, 0, 10, 100]\<rparr>)
        [(8, gt_note), (9, gt_note)] = Inr [(8, Fin (1 / 10)), (9, Fin (1 / 10))]
   \<and> calculate_tpfp example_store unit_iou ((det_note 1 (1 / 2))\<lparr>bbox := [0, 0, 10, 100]\<rparr>)
        [(8, gt_note), (9, gt_note)] = Inr (- 1, Fin 0)
   \<and> det_overlaps example_store unit_iou ((det_note 1 (1 / 2))\<lparr>bbox := [0, 1, 0, 9]\<rparr>)
        [(8, gt_note\<lparr>a_bbox := [0, 0, 0, 10]\<rparr>)] = Inr [(8, NaN)]
   \<and> calculate_tpfp example_store unit_iou ((det_note 1 (1 / 2))\<lparr>bbox := [0, 1, 0, 9]\<rparr>)
        [(8, gt_note\<lparr>a_bbox := [0, 0, 0, 10]\<rparr>)] = Inr (- 1, Fin 0)
   \<and> same_cat_gt ((det_note 1 (1 / 2))\<lparr>prop_cat_id := 2\<rparr>) [(8, gt_note), (9, gt_note)] = Inr []
   \<and> calculate_tpfp example_store unit_iou ((det_note 1 (1 / 2))\<lparr>prop_cat_id := 2\<rparr>)
        [(8, gt_note), (9, gt_note)] = Inr (- 1, Fin 0)"
proof -
  have ne: "[(8, gt_note), (9 :: int, gt_note)] \<noteq> []" by simp
  have ne1: "[(8 :: int, gt_note\<lparr>a_bbox := [0, 0, 0, 10]\<rparr>)] \<noteq> []" by simp
  have hi: "\<exists>j < length [(8, gt_note), (9 :: int, gt_note)].
              fless (Fin (2 / 10)) (snd ([(8 :: int, Fin 1), (9, Fin 1)] ! j))"
    by (rule exI[of _ 0]) simp
  have lo: "\<forall>j < length [(8, gt_note), (9 :: int, gt_note)].
              \<not> fless (Fin (2 / 10)) (snd ([(8 :: int, Fin (1 / 10)), (9, Fin (1 / 10))] ! j))"
    by (simp add: less_Suc_eq nth_Cons')
  have nan: "\<forall>j < length [(8 :: int, gt_note\<lparr>a_bbox := [0, 0, 0, 10]\<rparr>)].
              \<not> fless (Fin (2 / 10)) (snd ([(8 :: int, NaN)] ! j))"
    by simp
  note m = tpfp_reservation[OF example_same_cat(1), where s = example_store
      and iou_poly = unit_iou and ovs = "[(8, Fin 1), (9, Fin 1)]" and dets = "[]"
      and i1 = 1 and sc1 = "1 / 2"]
  note l = tpfp_reservation[OF example_same_cat_other(2), where s = example_store
      and iou_poly = unit_iou and ovs = "[(8, Fin (1 / 10)), (9, Fin (1 / 10))]" and dets = "[]"]
  note q = tpfp_reservation[OF example_same_cat_other(3), where s = example_store
      and iou_poly = unit_iou and ovs = "[(8, NaN)]" and dets = "[]"]
  note n = tpfp_reservation[OF example_same_cat_other(1), where s = example_store
      and iou_poly = unit_iou and ovs = "[]" and dets = "[]"]
  from l ne example_low_overlap lo
  have r2: "calculate_tpfp example_store unit_iou ((det_note 1 (1 / 2))\<lparr>bbox := [0, 0, 10, 100]\<rparr>)
        [(8, gt_note), (9, gt_note)] = Inr (- 1, Fin 0)" by blast
  from q ne1 example_nan_overlap nan
  have r4: "calculate_tpfp example_store unit_iou ((det_note 1 (1 / 2))\<lparr>bbox := [0, 1, 0, 9]\<rparr>)
        [(8, gt_note\<lparr>a_bbox := [0, 0, 0, 10]\<rparr>)] = Inr (- 1, Fin 0)" by blast
  from n have r3: "calculate_tpfp example_store unit_iou ((det_note 1 (1 / 2))\<lparr>prop_cat_id := 2\<rparr>)
        [(8, gt_note), (9, gt_note)] = Inr (- 1, Fin 0)" by blast
  from m ne example_det_overlaps(1)[of 1 "1 / 2"] hi
  obtain k where k: "k < length [(8, gt_note), (9 :: int, gt_note)]"
    "calculate_tpfp example_store unit_iou (det_note 1 (1 / 2)) [(8, gt_note), (9, gt_note)]
       = Inr (fst ([(8, gt_note), (9 :: int, gt_note)] ! k), snd ([(8 :: int, Fin 1), (9, Fin 1)] ! k))"
    "\<forall>j < k. \<not> fge (snd ([(8 :: int, Fin 1), (9, Fin 1)] ! j)) (snd ([(8 :: int, Fin 1), (9, Fin 1)] ! k))"
    by blast
  have "k = 0"
  proof (rule ccontr)
    assume "k \<noteq> 0"
    with k(1) have "k = 1" by simp
    with k(3) have "\<not> fge (snd ([(8 :: int, Fin 1), (9, Fin 1)] ! 0)) (snd ([(8 :: int, Fin 1), (9, Fin 1)] ! 1))"
      by blast
    then show False by (simp add: fge_def)
  qed
  with k(2) have r1: "calculate_tpfp example_store unit_iou (det_note 1 (1 / 2))
      [(8, gt_note), (9, gt_note)] = Inr (8, Fin 1)" by simp
  have r1m: "match_detections example_store unit_iou [det_note 1 (1 / 2)] [(8, gt_note), (9, gt_note)]
       = Inr [(8, Fin 1, 1, 1 / 2)]"
    using r1 by (simp add: drop_label_def det_note_def)
  show ?thesis
    by (intro conjI example_same_cat(1) example_det_overlaps(1) r1 r1m example_low_overlap r2
        example_nan_overlap r4 example_same_cat_other(1) r3)
qed

theorem image_gt_claimed_once_witness:
  "image_overlaps example_store unit_iou
       [det_note 0 (9 / 10), det_note 0 (3 / 10), det_note 1 (1 / 2)] 0
     = Inr [(7, Fin 1, 1, 3 / 10), (- 1, Fin 0, 1, 9 / 10)]
   \<and> (7 :: int) \<noteq> - 1
   \<and> length (filter (\<lambda>r. row_id r = 7) [(7, Fin 1, 1, 3 / 10), (- 1, Fin 0, 1, 9 / 10 :: real)]) \<le> 1"
  using image_gt_claimed_once[OF example_image0, of 7] example_image0
  by simp

theorem ascending_confidence_order_witness:
  "image_overlaps example_store unit_iou
       [det_note 0 (9 / 10), det_note 0 (3 / 10), det_note 1 (1 / 2)] 0
     = Inr [(7, Fin 1, 1, 3 / 10), (- 1, Fin 0, 1, 9 / 10)]
   \<and> map row_score [(7, Fin 1, 1, 3 / 10), (- 1, Fin 0, 1, 9 / 10 :: real)]
       = sort (map score (filter (\<lambda>p. img_idx p = 0)
                 [det_note 0 (9 / 10), det_note 0 (3 / 10), det_note 1 (1 / 2)]))
   \<and> match_detections example_store unit_iou [det_note 0 (3 / 10)] [(7, gt_note)]
       = Inr [(7, Fin 1, 1, 3 / 10)]"
  using ascending_confidence_order[OF example_image0] example_image0 example_tpfp(2)[of 0 "3 / 10"]
  by (simp add: row_simps det_note_def drop_label_def)

subsection \<open>Oriented overlaps\<close>

text \<open>
  C7. In the oriented branch the overlaps are computed only for exactly one candidate
  (against the detection box multiplied by 1). For any other number of candidates the
  one-element \<open>det\<close> column does not fit the frame and \<^verbatim>\<open>ValueError\<close> is raised; so
  \<^verbatim>\<open>calculate_tpfp\<close> raises whenever a detection has two or more same-category
  candidates.
\<close>

theorem oriented_overlaps_single_candidate_only:
  assumes "props_oriented s"
  shows "(\<forall>l g. det_overlaps s iou_poly det [(l, g)]
                  = Inr [(l, Fin (iou_poly (o_bbox g) (map (\<lambda>x. x * 1) (bbox det))))])
       \<and> (length cands \<noteq> 1 \<longrightarrow> det_overlaps s iou_poly det cands = Inl ValueError)
       \<and> (same_cat_gt det img_gt = Inr cands \<and> length cands \<ge> 2
            \<longrightarrow> calculate_tpfp s iou_poly det img_gt = Inl ValueError)"
proof (intro conjI allI impI)
  fix l g
  show "det_overlaps s iou_poly det [(l, g)]
          = Inr [(l, Fin (iou_poly (o_bbox g) (map (\<lambda>x. x * 1) (bbox det))))]"
    using assms by (simp add: det_overlaps_def data_frame_def)
next
  assume "length cands \<noteq> 1"
  then show "det_overlaps s iou_poly det cands = Inl ValueError"
    using assms by (auto simp: det_overlaps_def data_frame_def)
next
  assume a: "same_cat_gt det img_gt = Inr cands \<and> 2 \<le> length cands"
  then have "det_overlaps s iou_poly det cands = Inl ValueError"
    using assms by (auto simp: det_overlaps_def data_frame_def)
  with a show "calculate_tpfp s iou_poly det img_gt = Inl ValueError"
    by (auto simp: calculate_tpfp_def)
qed

theorem oriented_overlaps_single_candidate_only_witness:
  "props_oriented (example_store\<lparr>props_oriented := True\<rparr>)
   \<and> same_cat_gt (det_note 1 (1 / 2)) [(8, gt_note), (9, gt_note)]
       = Inr [(8, gt_note), (9, gt_note)]
   \<and> (2 :: nat) \<le> length [(8, gt_note), (9, gt_note)]
   \<and> det_overlaps (example_store\<lparr>props_oriented := True\<rparr>) unit_iou (det_note 1 (1 / 2))
        [(8, gt_note), (9, gt_note)] = Inl ValueError
   \<and> calculate_tpfp (example_store\<lparr>props_oriented := True\<rparr>) unit_iou (det_note 1 (1 / 2))
        [(8, gt_note), (9, gt_note)] = Inl ValueError
   \<and> image_overlaps (example_store\<lparr>props_oriented := True\<rparr>) unit_iou
        [det_note 0 (9 / 10), det_note 0 (3 / 10), det_note 1 (1 / 2)] 1 = Inl ValueError"
proof -
  let ?s = "example_store\<lparr>props_oriented := True\<rparr>"
  have o: "props_oriented ?s" by simp
  have gt: "get_anns ?s (Some 1) None None = Inr [(8, gt_note), (9, gt_note)]"
    by (simp add: example_defs get_anns_def xor_args_def item_def get_ann_ids_def filter_ids_def)
  note t = oriented_overlaps_single_candidate_only[OF o, where det = "det_note 1 (1 / 2)"
      and cands = "[(8, gt_note), (9, gt_note)]" and img_gt = "[(8, gt_note), (9, gt_note)]"
      and iou_poly = unit_iou]
  have tp: "calculate_tpfp ?s unit_iou (det_note 1 (1 / 2)) [(8, gt_note), (9, gt_note)]
              = Inl ValueError"
    using t example_same_cat(1)[of 1 "1 / 2"] by simp
  have "image_overlaps ?s unit_iou
        [det_note 0 (9 / 10), det_note 0 (3 / 10), det_note 1 (1 / 2)] 1 = Inl ValueError"
    using tp gt by (simp add: image_overlaps_def det_note_def)
  then show ?thesis using t tp example_same_cat(1)[of 1 "1 / 2"] by simp
qed

subsection \<open>Keys of the per-threshold entries\<close>

lemma evaluate_threshold_keys:
  "evaluate_threshold s ovs t bc = Inr (rows, e) \<Longrightarrow> map fst e = [''ap'', ''precision'', ''recall'']"
  by (auto simp: evaluate_threshold_def and_then_Inr Let_def split: if_splits)

lemma set_update_subset: "set (AList.update k v al) \<subseteq> insert (k, v) (set al)"
  by (induction al) auto

lemma evaluate_loop_entries:
  "evaluate_loop s ovs thrs bc m = Inr m'
     \<Longrightarrow> \<forall>p \<in> set m. map fst (snd p) = [''ap'', ''precision'', ''recall'']
     \<Longrightarrow> \<forall>p \<in> set m'. map fst (snd p) = [''ap'', ''precision'', ''recall'']"
proof (induction thrs arbitrary: ovs m)
  case Nil
  then show ?case by simp
next
  case (Cons t thrs)
  from Cons.prems(1) obtain rows e where
    th: "evaluate_threshold s ovs t bc = Inr (rows, e)"
    and rec: "evaluate_loop s rows thrs bc (AList.update t e m) = Inr m'"
    by (auto simp: and_then_Inr split: prod.splits)
  have "\<forall>p \<in> set (AList.update t e m). map fst (snd p) = [''ap'', ''precision'', ''recall'']"
    using set_update_subset[of t e m] Cons.prems(2) evaluate_threshold_keys[OF th] by auto
  from Cons.IH[OF rec this] show ?case .
qed

lemma evaluate_loop_keys:
  "evaluate_loop s ovs thrs bc m = Inr m' \<Longrightarrow> fst ` set m' = fst ` set m \<union> set thrs"
proof (induction thrs arbitrary: ovs m)
  case Nil
  then show ?case by simp
next
  case (Cons t thrs)
  from Cons.prems(1) obtain rows e where
    rec: "evaluate_loop s rows thrs bc (AList.update t e m) = Inr m'"
    by (auto simp: and_then_Inr split: prod.splits)
  from Cons.IH[OF rec] show ?case by (auto simp: dom_update)
qed

lemma average_thresholds_raises:
  assumes "\<forall>p \<in> set td. map fst (snd p) = [''ap'', ''precision'', ''recall'']"
  shows "average_thresholds td = (if td = [] then Inl ZeroDivisionError else Inl KeyError)"
proof (cases td)
  case Nil
  then show ?thesis by (simp add: average_thresholds_def averaged_init_def truediv_def)
next
  case (Cons p rest)
  obtain t e where p: "p = (t, e)" by (cases p)
  with assms Cons have "map fst e = [''ap'', ''precision'', ''recall'']" by simp
  then have "map_of e ''accuracy'' = None" by (simp add: map_of_eq_None_iff flip: set_map)
  then show ?thesis using Cons p by (simp add: average_thresholds_def averaged_init_def)
qed

lemma classwise_results_entries:
  "classwise_results s ovs thrs cs = Inr res
     \<Longrightarrow> length res = length cs
       \<and> (\<forall>q \<in> set res. \<forall>p \<in> set (snd q). map fst (snd p) = [''ap'', ''precision'', ''recall''])"
proof (induction cs arbitrary: res)
  case Nil
  then show ?case by simp
next
  case (Cons c cs)
  from Cons.prems obtain m rest where
    m: "evaluate_overlaps s (filter (\<lambda>r. row_cat r = c) ovs) thrs (ClassIdx c) = Inr m"
    and rest: "classwise_results s ovs thrs cs = Inr rest" and res: "res = (Class c, m) # rest"
    by (auto simp: and_then_Inr)
  have "\<forall>p \<in> set m. map fst (snd p) = [''ap'', ''precision'', ''recall'']"
    using evaluate_loop_entries[OF m[unfolded evaluate_overlaps_def]] by simp
  then show ?case using Cons.IH[OF rest] res by auto
qed

text \<open>
  C2. With \<^verbatim>\<open>average_thrs=True\<close> the call never returns a report: whatever the
  store, the thresholds and the mode, \<^verbatim>\<open>calculate_metrics\<close> raises. The averaging
  loop reads the key \<^verbatim>\<open>'accuracy'\<close>, which no per-threshold entry has (their keys are
  \<^verbatim>\<open>'ap'\<close>, \<^verbatim>\<open>'precision'\<close>, \<^verbatim>\<open>'recall'\<close>), and with no threshold entry at all it
  divides by zero.
\<close>

theorem threshold_averaging_always_raises:
  "\<exists>e. calculate_metrics s iou_poly iou_thrs classwise True = Inl e"
proof (cases "calculate_metrics s iou_poly iou_thrs classwise True")
  case (Inl e)
  then show ?thesis by blast
next
  case (Inr rep)
  then obtain props where props: "proposals s = Some props"
    by (auto simp: calculate_metrics_def split: option.splits)
  from Inr props obtain ovs results where
    ovs: "collect_overlaps s iou_poly props (unique_images props) = Inr ovs"
    and results: "(if classwise then
                    (if ovs = [] then Inl IndexError
                     else classwise_results s ovs (seq_items iou_thrs) (sort (remdups (map row_cat ovs))))
                  else
                    and_then (evaluate_overlaps s ovs
                                (map (\<lambda>(c, n). real n) (value_counts (map prop_cat_id props)))
                                (ClassSeq iou_thrs))
                      (\<lambda>m. Inr [(Average, m)])) = Inr results"
    and avg: "try_map (\<lambda>(cls_key, tresh_dict).
                 and_then (average_thresholds tresh_dict) (\<lambda>a. Inr (cls_key, Averaged a)))
               results = Inr rep"
    by (auto simp: calculate_metrics_def and_then_Inr Let_def)
  have ne: "results \<noteq> []"
   and ent: "\<forall>q \<in> set results. \<forall>p \<in> set (snd q). map fst (snd p) = [''ap'', ''precision'', ''recall'']"
  proof -
    show "results \<noteq> []"
    proof (cases classwise)
      case True
      with results have o: "ovs \<noteq> []"
        and c: "classwise_results s ovs (seq_items iou_thrs) (sort (remdups (map row_cat ovs))) = Inr results"
        by (auto split: if_splits)
      from o have "sort (remdups (map row_cat ovs)) \<noteq> []"
        by (metis length_0_conv length_sort remdups_eq_nil_iff map_is_Nil_conv)
      with classwise_results_entries[OF c] show ?thesis by auto
    next
      case False
      with results show ?thesis by (auto simp: and_then_Inr)
    qed
    show "\<forall>q \<in> set results. \<forall>p \<in> set (snd q). map fst (snd p) = [''ap'', ''precision'', ''recall'']"
    proof (cases classwise)
      case True
      with results have
        c: "classwise_results s ovs (seq_items iou_thrs) (sort (remdups (map row_cat ovs))) = Inr results"
        by (auto split: if_splits)
      from classwise_results_entries[OF c] show ?thesis by blast
    next
      case False
      with results obtain m where
        m: "evaluate_overlaps s ovs (map (\<lambda>(c, n). real n) (value_counts (map prop_cat_id props)))
              (ClassSeq iou_thrs) = Inr m" and r: "results = [(Average, m)]"
        by (auto simp: and_then_Inr)
      have "\<forall>p \<in> set m. map fst (snd p) = [''ap'', ''precision'', ''recall'']"
        using evaluate_loop_entries[OF m[unfolded evaluate_overlaps_def]] by simp
      with r show ?thesis by simp
    qed
  qed
  from ne obtain k td rest where r: "results = (k, td) # rest" by (cases results) auto
  with ent have "\<forall>p \<in> set td. map fst (snd p) = [''ap'', ''precision'', ''recall'']" by simp
  from average_thresholds_raises[OF this] have "\<exists>e. average_thresholds td = Inl e" by auto
  with avg r have False by (auto simp: and_then_Inr)
  then show ?thesis ..
qed

subsection \<open>The aggregate call\<close>

lemma example_image1:
  "image_overlaps example_store unit_iou [det_note 0 (9 / 10), det_note 0 (3 / 10), det_note 1 (1 / 2)] 1
     = Inr [(8, Fin 1, 1, 1 / 2)]"
  using example_gt1 example_tpfp(1)[of 1 "1 / 2"]
  by (simp add: image_overlaps_def det_note_def drop_label_def)

lemma example_collect:
  "collect_overlaps example_store unit_iou
      [det_note 0 (9 / 10), det_note 0 (3 / 10), det_note 1 (1 / 2)]
      (unique_images [det_note 0 (9 / 10), det_note 0 (3 / 10), det_note 1 (1 / 2)])
     = Inr [(7, Fin 1, 1, 3 / 10), (- 1, Fin 0, 1, 9 / 10), (8, Fin 1, 1, 1 / 2)]"
proof -
  have u: "unique_images [det_note 0 (9 / 10), det_note 0 (3 / 10), det_note 1 (1 / 2)] = [0, 1]"
    by (simp add: unique_images_def det_note_def)
  show ?thesis unfolding u using example_image0 example_image1 by simp
qed

lemma example_value_counts:
  "value_counts (map prop_cat_id [det_note 0 (9 / 10), det_note 0 (3 / 10), det_note 1 (1 / 2)])
     = [(1, 3)]"
  by (simp add: value_counts_def det_note_def)

lemma example_sorted_rows:
  "rev (sort_key row_score [(7, Fin 1, 1, 3 / 10), (- 1, Fin 0, 1, 9 / 10), (8, Fin 1, 1, 1 / 2 :: real)])
     = [(- 1, Fin 0, 1, 9 / 10), (8, Fin 1, 1, 1 / 2), (7, Fin 1, 1, 3 / 10)]"
  by (simp add: row_simps)

lemma example_nr_gt_seq:
  "nr_gt example_store (ClassSeq (PyTuple [1 / 2, 11 / 20, 3 / 5])) = Inr 0"
  by (simp add: nr_gt_def first_cats_def example_defs item_def)

lemma upt_4: "[0 ..< 4] = [0, 1, 2, 3 :: nat]"
  by (simp add: upt_rec)

lemma example_threshold_3:
  "evaluate_threshold example_store [(7, Fin 1, 1, 3 / 10), (- 1, Fin 0, 1, 9 / 10), (8, Fin 1, 1, 1 / 2)] 3
      (ClassSeq (PyTuple [1 / 2, 11 / 20, 3 / 5]))
     = Inr ([(- 1, Fin 0, 1, 9 / 10), (8, Fin 1, 1, 1 / 2), (7, Fin 1, 1, 3 / 10)],
            [(''ap'', Fin 0), (''precision'', Fin 0), (''recall'', Fin 0)])"
  unfolding evaluate_threshold_def example_sorted_rows example_nr_gt_seq
  by (simp add: recall_seq_def precision_seq_def cumsum_def row_simps average_precision_def
      average_def upt_4 fge_def fne_def fmax_def fsub_def fsum_def spacing_1_def Let_def)

text \<open>
  C1. In aggregate mode (\<^verbatim>\<open>classwise=False\<close>, no averaging) a returned report has
  the single key \<^verbatim>\<open>"average"\<close>, and the keys of its mapping are the numbers of
  proposals per category (the values of \<^verbatim>\<open>tot_props\<close>, passed in the position of
  \<^verbatim>\<open>iou_thrs\<close>), not the requested IoU thresholds.
\<close>

theorem aggregate_keys_are_proposal_counts:
  assumes "calculate_metrics s iou_poly iou_thrs False False = Inr rep"
  shows "\<exists>props m. proposals s = Some props \<and> rep = [(Average, PerThreshold m)]
           \<and> fst ` set m = (\<lambda>(c, n). real n) ` set (value_counts (map prop_cat_id props))"
proof -
  from assms obtain props where props: "proposals s = Some props"
    by (auto simp: calculate_metrics_def split: option.splits)
  from assms props obtain ovs m where
    m: "evaluate_overlaps s ovs (map (\<lambda>(c, n). real n) (value_counts (map prop_cat_id props)))
              (ClassSeq iou_thrs) = Inr m"
    and rep: "rep = [(Average, PerThreshold m)]"
    by (auto simp: calculate_metrics_def and_then_Inr Let_def)
  have "fst ` set m = set (map (\<lambda>(c, n). real n) (value_counts (map prop_cat_id props)))"
    using evaluate_loop_keys[OF m[unfolded evaluate_overlaps_def]] by simp
  with props rep show ?thesis by auto
qed

theorem aggregate_keys_are_proposal_counts_witness:
  "calculate_metrics example_store unit_iou (PyTuple [1 / 2, 11 / 20, 3 / 5]) False False
     = Inr [(Average, PerThreshold [(3, [(''ap'', Fin 0), (''precision'', Fin 0), (''recall'', Fin 0)])])]
   \<and> fst ` set [(3 :: real, [(''ap'', Fin 0), (''precision'', Fin 0), (''recall'', Fin 0)])]
       = (\<lambda>(c, n). real n) ` set (value_counts (map prop_cat_id
            [det_note 0 (9 / 10), det_note 0 (3 / 10), det_note 1 (1 / 2)]))"
proof -
  have c: "calculate_metrics example_store unit_iou (PyTuple [1 / 2, 11 / 20, 3 / 5]) False False
     = Inr [(Average, PerThreshold [(3, [(''ap'', Fin 0), (''precision'', Fin 0), (''recall'', Fin 0)])])]"
  proof -
    have p: "proposals example_store
         = Some [det_note 0 (9 / 10), det_note 0 (3 / 10), det_note 1 (1 / 2)]"
      by (simp add: example_store_def)
    show ?thesis
      unfolding calculate_metrics_def p option.case Let_def example_collect example_value_counts
        evaluate_overlaps_def
      using example_threshold_3 by simp
  qed
  have p: "proposals example_store
         = Some [det_note 0 (9 / 10), det_note 0 (3 / 10), det_note 1 (1 / 2)]"
    by (simp add: example_store_def)
  from aggregate_keys_are_proposal_counts[OF c] p c show ?thesis by simp
qed

subsection \<open>Recall and average precision without ground truth\<close>

lemma length_cumsum_from: "length (cumsum_from acc bs) = length bs"
  by (induction bs arbitrary: acc) auto

lemma length_cumsum: "length (cumsum bs) = length bs"
  by (simp add: cumsum_def length_cumsum_from)

lemma cumsum_from_nth:
  "i < length bs \<Longrightarrow> cumsum_from acc bs ! i = real (acc + length (filter id (take (Suc i) bs)))"
proof (induction bs arbitrary: acc i)
  case Nil
  then show ?case by simp
next
  case (Cons b bs)
  show ?case
  proof (cases i)
    case 0
    then show ?thesis by simp
  next
    case (Suc j)
    with Cons.prems have "j < length bs" by simp
    from Cons.IH[OF this] Suc show ?thesis by simp
  qed
qed

lemma cumsum_count:
  "i < length rows \<Longrightarrow> cumsum (map P rows) ! i = real (length (filter P (take (Suc i) rows)))"
proof -
  assume "i < length rows"
  then have "cumsum (map P rows) ! i = real (length (filter id (take (Suc i) (map P rows))))"
    by (simp add: cumsum_def cumsum_from_nth)
  also have "filter id (take (Suc i) (map P rows)) = map P (filter P (take (Suc i) rows))"
    by (simp add: take_map filter_map comp_def)
  finally show ?thesis by simp
qed

lemma length_recall_seq: "length (recall_seq rows t n) = length rows"
  by (simp add: recall_seq_def Let_def length_cumsum)

lemma length_precision_seq: "length (precision_seq rows t) = length rows"
  by (simp add: precision_seq_def Let_def length_cumsum)

lemma recall_seq_zero: "recall_seq rows t 0 = replicate (length rows) (Fin 0)"
  by (simp add: recall_seq_def Let_def map_replicate_const length_cumsum)

lemma recall_seq_pos:
  assumes "0 < n" and "i < length rows"
  shows "recall_seq rows t n ! i
           = Fin (real (length (filter (\<lambda>r. fge (row_overlap r) (Fin t)) (take (Suc i) rows)))
                  / real n)"
  using assms by (simp add: recall_seq_def Let_def length_cumsum cumsum_count)

lemma fsum_zeros: "\<forall>x \<in> set xs. x = Fin 0 \<Longrightarrow> foldl fadd (Fin 0) xs = Fin 0"
  by (induction xs) auto

lemma average_zeros: "0 < k \<Longrightarrow> average (replicate k (Fin 0)) = Fin 0"
  by (simp add: average_def fsum_def fsum_zeros)

lemma length_envelope: "length (envelope xs) = length xs"
  by (induction xs) (auto split: list.splits)

lemma envelope_Nil_iff: "envelope xs = [] \<longleftrightarrow> xs = []"
  by (cases xs) (auto split: list.splits)

lemma last_envelope: "xs \<noteq> [] \<Longrightarrow> last (envelope xs) = last xs"
proof (induction xs)
  case Nil then show ?case by simp
next
  case (Cons x xs)
  show ?case
  proof (cases "xs = []")
    case True then show ?thesis by simp
  next
    case False
    then obtain y ys where e: "envelope xs = y # ys"
      using envelope_Nil_iff[of xs] by (cases "envelope xs") auto
    with Cons.IH[OF False] False show ?thesis by simp
  qed
qed

lemma fsum_filter_zero:
  "(\<And>i. i \<in> set xs \<Longrightarrow> P i \<Longrightarrow> f i = Fin 0) \<Longrightarrow> fsum (map f (filter P xs)) = Fin 0"
  unfolding fsum_def by (rule fsum_zeros) auto

lemma average_precision_zero_recall:
  assumes "length ps = k"
  shows "average_precision (replicate k (Fin 0)) ps ''area'' = Inr (Fin 0)"
proof -
  let ?mrec = "[Fin 0] @ replicate k (Fin 0) @ [Fin 1]"
  let ?mpre = "envelope ([Fin 0] @ ps @ [Fin 0])"
  have mrec: "?mrec ! i = Fin 0" if "i \<le> k" for i
    using that by (cases i) (auto simp: nth_append)
  have lm: "length ?mpre = k + 2" unfolding length_envelope using assms by simp
  have "last ?mpre = last ([Fin 0] @ ps @ [Fin 0])" by (rule last_envelope) simp
  then have l0: "last ?mpre = Fin 0" by (simp del: envelope.simps)
  have "?mpre \<noteq> []" unfolding envelope_Nil_iff by simp
  then have "last ?mpre = ?mpre ! (length ?mpre - 1)" by (rule last_conv_nth)
  with l0 lm have top: "?mpre ! (k + 1) = Fin 0" by (simp del: envelope.simps)
  have each: "fmul (fsub (?mrec ! (i + 1)) (?mrec ! i)) (?mpre ! (i + 1)) = Fin 0"
    if "i \<in> set [0 ..< length ?mrec - 1]" "fne (?mrec ! (i + 1)) (?mrec ! i)" for i
  proof (cases "i < k")
    case True
    then have "?mrec ! (i + 1) = Fin 0" "?mrec ! i = Fin 0" using mrec[of "i + 1"] mrec[of i] by simp_all
    with that(2) show ?thesis by (simp add: fne_def)
  next
    case False
    with that(1) have ik: "i = k" by simp
    have "?mrec ! (k + 1) = Fin 1" by (simp add: nth_append)
    moreover have "?mrec ! k = Fin 0" using mrec[of k] by simp
    ultimately show ?thesis using top ik by (simp add: fsub_def del: envelope.simps)
  qed
  have "fsum (map (\<lambda>i. fmul (fsub (?mrec ! (i + 1)) (?mrec ! i)) (?mpre ! (i + 1)))
          (filter (\<lambda>i. fne (?mrec ! (i + 1)) (?mrec ! i)) [0 ..< length ?mrec - 1])) = Fin 0"
    by (rule fsum_filter_zero) (rule each)
  then show ?thesis using assms
    by (simp add: average_precision_def Let_def del: envelope.simps)
qed

lemma average_precision_area_total:
  "length rs = length ps \<Longrightarrow> \<exists>ap. average_precision rs ps ''area'' = Inr ap"
  by (simp add: average_precision_def Let_def)

lemma sorted_rows_nonempty: "overlaps \<noteq> [] \<Longrightarrow> rev (sort_key row_score overlaps) \<noteq> []"
  by (metis length_0_conv length_rev length_sort)

lemma evaluate_threshold_zero_gt:
  assumes "overlaps \<noteq> []" and "nr_gt s bc = Inr 0"
  shows "evaluate_threshold s overlaps t bc =
           Inr (rev (sort_key row_score overlaps),
                [(''ap'', Fin 0),
                 (''precision'', average (precision_seq (rev (sort_key row_score overlaps)) t)),
                 (''recall'', Fin 0)])"
proof -
  let ?rows = "rev (sort_key row_score overlaps)"
  have ap: "average_precision (recall_seq ?rows t 0) (precision_seq ?rows t) ''area'' = Inr (Fin 0)"
    unfolding recall_seq_zero by (rule average_precision_zero_recall) (rule length_precision_seq)
  have "0 < length ?rows" using assms(1) by simp
  then have "average (recall_seq ?rows t 0) = Fin 0"
    unfolding recall_seq_zero by (rule average_zeros)
  with ap assms show ?thesis by (simp add: evaluate_threshold_def Let_def)
qed

lemma evaluate_threshold_total:
  assumes "overlaps \<noteq> []" and "nr_gt s bc = Inr n"
  shows "\<exists>e. evaluate_threshold s overlaps t bc = Inr (rev (sort_key row_score overlaps), e)"
proof -
  let ?rows = "rev (sort_key row_score overlaps)"
  have "length (recall_seq ?rows t n) = length (precision_seq ?rows t)"
    by (simp only: length_recall_seq length_precision_seq)
  from average_precision_area_total[OF this] obtain ap where
    "average_precision (recall_seq ?rows t n) (precision_seq ?rows t) ''area'' = Inr ap" ..
  with assms show ?thesis by (simp add: evaluate_threshold_def Let_def)
qed

lemma evaluate_loop_total:
  assumes "nr_gt s bc = Inr n"
  shows "overlaps \<noteq> [] \<Longrightarrow> \<exists>m'. evaluate_loop s overlaps thrs bc m = Inr m'"
proof (induction thrs arbitrary: overlaps m)
  case Nil
  then show ?case by simp
next
  case (Cons t thrs)
  from evaluate_threshold_total[OF Cons.prems assms] obtain e where
    "evaluate_threshold s overlaps t bc = Inr (rev (sort_key row_score overlaps), e)" ..
  moreover from Cons.IH[OF sorted_rows_nonempty[OF Cons.prems]] obtain m' where
    "evaluate_loop s (rev (sort_key row_score overlaps)) thrs bc (AList.update t e m) = Inr m'" ..
  ultimately show ?case by simp
qed

lemma evaluate_loop_zero_gt:
  assumes "nr_gt s bc = Inr 0"
  shows "overlaps \<noteq> []
     \<Longrightarrow> \<forall>p \<in> set m. map_of (snd p) ''ap'' = Some (Fin 0) \<and> map_of (snd p) ''recall'' = Some (Fin 0)
     \<Longrightarrow> \<exists>m'. evaluate_loop s overlaps thrs bc m = Inr m'
           \<and> (\<forall>p \<in> set m'. map_of (snd p) ''ap'' = Some (Fin 0)
                            \<and> map_of (snd p) ''recall'' = Some (Fin 0))"
proof (induction thrs arbitrary: overlaps m)
  case Nil
  then show ?case by simp
next
  case (Cons t thrs)
  let ?rows = "rev (sort_key row_score overlaps)"
  let ?e = "[(''ap'', Fin 0), (''precision'', average (precision_seq ?rows t)), (''recall'', Fin 0)]"
  have th: "evaluate_threshold s overlaps t bc = Inr (?rows, ?e)"
    using evaluate_threshold_zero_gt[OF Cons.prems(1) assms] .
  have "\<forall>p \<in> set (AList.update t ?e m).
          map_of (snd p) ''ap'' = Some (Fin 0) \<and> map_of (snd p) ''recall'' = Some (Fin 0)"
    using set_update_subset[of t ?e m] Cons.prems(2) by auto
  from Cons.IH[OF sorted_rows_nonempty[OF Cons.prems(1)] this] th show ?case by simp
qed

text \<open>
  C8. Take a non-empty overlap-record collection, sorted by descending score, and let
  \<open>n\<close> be the ground-truth count \<^verbatim>\<open>nr_gt\<close>. If \<open>n = 0\<close>, the recall sequence is
  all zeros, the average precision is 0, and the evaluation returns, for any list of
  thresholds, a mapping in which every entry has \<^verbatim>\<open>'ap'\<close> 0 and \<^verbatim>\<open>'recall'\<close> 0: no
  error is raised and no \<^verbatim>\<open>nan\<close> or infinity appears. If \<open>n > 0\<close>, the recall at
  position \<open>i\<close> is the number of records among the first \<open>i + 1\<close> whose overlap is at
  least the threshold, divided by \<open>n\<close>, and the evaluation returns as well.
\<close>

theorem zero_ground_truth_no_division:
  assumes "overlaps \<noteq> []" and "nr_gt s bc = Inr n"
  shows "(n = 0 \<longrightarrow>
            recall_seq (rev (sort_key row_score overlaps)) t n
              = replicate (length overlaps) (Fin 0)
          \<and> average_precision (recall_seq (rev (sort_key row_score overlaps)) t n)
               (precision_seq (rev (sort_key row_score overlaps)) t) ''area'' = Inr (Fin 0)
          \<and> (\<exists>m. evaluate_overlaps s overlaps thrs bc = Inr m
                \<and> (\<forall>p \<in> set m. map_of (snd p) ''ap'' = Some (Fin 0)
                                \<and> map_of (snd p) ''recall'' = Some (Fin 0))))
       \<and> (n > 0 \<longrightarrow>
            (\<forall>i < length overlaps.
               recall_seq (rev (sort_key row_score overlaps)) t n ! i
                 = Fin (real (length (filter (\<lambda>r. fge (row_overlap r) (Fin t))
                                        (take (Suc i) (rev (sort_key row_score overlaps)))))
                        / real n))
          \<and> (\<exists>m. evaluate_overlaps s overlaps thrs bc = Inr m))"
proof (intro conjI impI)
  let ?rows = "rev (sort_key row_score overlaps)"
  assume z: "n = 0"
  show "recall_seq ?rows t n = replicate (length overlaps) (Fin 0)"
    using z by (simp add: recall_seq_zero)
  show "average_precision (recall_seq ?rows t n) (precision_seq ?rows t) ''area'' = Inr (Fin 0)"
    unfolding z recall_seq_zero by (rule average_precision_zero_recall) (rule length_precision_seq)
  show "\<exists>m. evaluate_overlaps s overlaps thrs bc = Inr m
          \<and> (\<forall>p \<in> set m. map_of (snd p) ''ap'' = Some (Fin 0)
                          \<and> map_of (snd p) ''recall'' = Some (Fin 0))"
    unfolding evaluate_overlaps_def
    using evaluate_loop_zero_gt[OF assms(2)[unfolded z] assms(1), of "[]" thrs] by simp
next
  let ?rows = "rev (sort_key row_score overlaps)"
  assume p: "0 < n"
  show "\<forall>i < length overlaps. recall_seq ?rows t n ! i
           = Fin (real (length (filter (\<lambda>r. fge (row_overlap r) (Fin t)) (take (Suc i) ?rows)))
                  / real n)"
    using recall_seq_pos[OF p, of _ ?rows t] by simp
  show "\<exists>m. evaluate_overlaps s overlaps thrs bc = Inr m"
    unfolding evaluate_overlaps_def using evaluate_loop_total[OF assms(2) assms(1)] .
qed

lemma example_nr_gt_5: "nr_gt example_store (ClassIdx 5) = Inr 0"
  by (simp add: nr_gt_def first_cats_def example_defs item_def)

lemma example_nr_gt_1: "nr_gt example_store (ClassIdx 1) = Inr 3"
  by (simp add: nr_gt_def first_cats_def example_defs item_def)

theorem zero_ground_truth_no_division_witness:
  "[(7, Fin 1, 1, 3 / 10), (- 1, Fin 0, 1, 9 / 10), (8, Fin 1, 1, 1 / 2 :: real)]
     \<noteq> ([] :: overlap_row list)
   \<and> nr_gt example_store (ClassIdx 5) = Inr 0
   \<and> recall_seq [(- 1, Fin 0, 1, 9 / 10), (8, Fin 1, 1, 1 / 2), (7, Fin 1, 1, 3 / 10)] (1 / 2) 0
       = [Fin 0, Fin 0, Fin 0]
   \<and> average_precision
         (recall_seq [(- 1, Fin 0, 1, 9 / 10), (8, Fin 1, 1, 1 / 2), (7, Fin 1, 1, 3 / 10)] (1 / 2) 0)
         (precision_seq [(- 1, Fin 0, 1, 9 / 10), (8, Fin 1, 1, 1 / 2), (7, Fin 1, 1, 3 / 10)] (1 / 2))
         ''area'' = Inr (Fin 0)
   \<and> nr_gt example_store (ClassIdx 1) = Inr 3
   \<and> (0 :: nat) < 3
   \<and> map (\<lambda>i. recall_seq [(- 1, Fin 0, 1, 9 / 10), (8, Fin 1, 1, 1 / 2), (7, Fin 1, 1, 3 / 10)]
                 (1 / 2) 3 ! i) [0, 1, 2]
       = [Fin 0, Fin (1 / 3), Fin (2 / 3)]"
proof -
  let ?ovs = "[(7, Fin 1, 1, 3 / 10), (- 1, Fin 0, 1, 9 / 10), (8, Fin 1, 1, 1 / 2 :: real)]
                :: overlap_row list"
  let ?rows = "[(- 1, Fin 0, 1, 9 / 10), (8, Fin 1, 1, 1 / 2), (7, Fin 1, 1, 3 / 10 :: real)]
                :: overlap_row list"
  have ne: "?ovs \<noteq> []" by simp
  have pos: "(0 :: nat) < 3" by simp
  have rows: "rev (sort_key row_score ?ovs) = ?rows" by (simp add: row_simps)
  note a = zero_ground_truth_no_division[OF ne example_nr_gt_5, of "1 / 2" "[1 / 2]",
      unfolded rows]
  note b = zero_ground_truth_no_division[OF ne example_nr_gt_1, of "1 / 2" "[1 / 2]",
      unfolded rows]
  from a have ra: "recall_seq ?rows (1 / 2) 0 = replicate (length ?ovs) (Fin 0)"
    and apz: "average_precision (recall_seq ?rows (1 / 2) 0) (precision_seq ?rows (1 / 2)) ''area''
                = Inr (Fin 0)"
    by blast+
  from ra have ra': "recall_seq ?rows (1 / 2) 0 = [Fin 0, Fin 0, Fin 0]"
    by (simp add: numeral_3_eq_3)
  from b pos have rb: "\<forall>i < length ?ovs. recall_seq ?rows (1 / 2) 3 ! i
       = Fin (real (length (filter (\<lambda>r. fge (row_overlap r) (Fin (1 / 2))) (take (Suc i) ?rows)))
              / real 3)" by blast
  have "recall_seq ?rows (1 / 2) 3 ! 0 = Fin 0" "recall_seq ?rows (1 / 2) 3 ! 1 = Fin (1 / 3)"
    "recall_seq ?rows (1 / 2) 3 ! 2 = Fin (2 / 3)"
    using rb by (simp_all add: row_simps fge_def)
  then have num: "map (\<lambda>i. recall_seq ?rows (1 / 2) 3 ! i) [0, 1, 2]
       = [Fin 0, Fin (1 / 3), Fin (2 / 3)]" by simp
  show ?thesis by (intro conjI ne pos example_nr_gt_5 example_nr_gt_1 ra' apz num)
qed

subsection \<open>The classwise ground-truth count\<close>

lemma first_cats_total:
  "\<forall>r \<in> set A. cat_id (snd r) \<noteq> []
     \<Longrightarrow> try_map (\<lambda>(l, a). item (cat_id a) 0) A = Inr (map (\<lambda>r. cat_id (snd r) ! 0) A)"
  by (induction A) (auto simp: item_def split: prod.splits)

lemma zip_map_self: "zip A (map g A) = map (\<lambda>r. (r, g r)) A"
  by (induction A) auto

lemma class_rows:
  "map (fst \<circ> fst) (filter (\<lambda>(r, f). f = c) (zip A (map g A))) = map fst (filter (\<lambda>r. g r = c) A)"
  by (induction A) auto

lemma nr_gt_class_count:
  assumes ne: "\<forall>r \<in> set (ann_info s). cat_id (snd r) \<noteq> []"
    and d: "distinct (map fst (ann_info s))"
  shows "nr_gt s (ClassIdx c)
           = Inr (length (filter (\<lambda>r. take 1 (cat_id (snd r)) = [c]) (ann_info s)))"
proof -
  have f: "first_cats s = Inr (map (\<lambda>r. cat_id (snd r) ! 0) (ann_info s))"
    unfolding first_cats_def using first_cats_total[OF ne] .
  have eq: "filter (\<lambda>r. cat_id (snd r) ! 0 = c) (ann_info s)
          = filter (\<lambda>r. take 1 (cat_id (snd r)) = [c]) (ann_info s)"
  proof (rule filter_cong[OF refl])
    fix r assume "r \<in> set (ann_info s)"
    with ne have "cat_id (snd r) \<noteq> []" by blast
    then show "(cat_id (snd r) ! 0 = c) = (take 1 (cat_id (snd r)) = [c])"
      by (cases "cat_id (snd r)") auto
  qed
  have "distinct (map fst (filter (\<lambda>r. cat_id (snd r) ! 0 = c) (ann_info s)))"
    using d by (rule distinct_map_filter)
  then show ?thesis
    by (simp add: nr_gt_def f class_rows eq distinct_remdups_id)
qed

lemma example_ann_info: "ann_info example_store = [(7, gt_note), (8, gt_note), (9, gt_note)]"
  by (simp add: example_store_def)

text \<open>
  C10. In a store whose annotations all carry at least one category id and have
  distinct ids, the classwise recall denominator for class \<open>c\<close> is the number of
  rows of the whole annotation table whose first category id is \<open>c\<close>. It is the same
  whatever the chosen annotation-set filter, the class blacklist and the loaded
  proposals are, and every threshold's entry is computed with that one count.
\<close>

theorem classwise_ground_truth_count:
  assumes ne: "\<forall>r \<in> set (ann_info s). cat_id (snd r) \<noteq> []"
    and d: "distinct (map fst (ann_info s))"
  shows "nr_gt (s\<lparr>chosen_ann_set := f, classes_blacklist_id := b, proposals := p\<rparr>) (ClassIdx c)
           = Inr (length (filter (\<lambda>r. take 1 (cat_id (snd r)) = [c]) (ann_info s)))
       \<and> (\<forall>ovs t. ovs \<noteq> [] \<longrightarrow>
            (\<exists>ap. evaluate_threshold (s\<lparr>chosen_ann_set := f, classes_blacklist_id := b,
                                        proposals := p\<rparr>) ovs t (ClassIdx c)
                 = Inr (rev (sort_key row_score ovs),
                        [(''ap'', ap),
                         (''precision'', average (precision_seq (rev (sort_key row_score ovs)) t)),
                         (''recall'', average (recall_seq (rev (sort_key row_score ovs)) t
                            (length (filter (\<lambda>r. take 1 (cat_id (snd r)) = [c]) (ann_info s)))))])))"
proof -
  let ?s = "s\<lparr>chosen_ann_set := f, classes_blacklist_id := b, proposals := p\<rparr>"
  let ?N = "length (filter (\<lambda>r. take 1 (cat_id (snd r)) = [c]) (ann_info s))"
  have n: "nr_gt ?s (ClassIdx c) = Inr ?N"
    using nr_gt_class_count[of ?s c] ne d by simp
  have "\<exists>ap. evaluate_threshold ?s ovs t (ClassIdx c)
                 = Inr (rev (sort_key row_score ovs),
                        [(''ap'', ap),
                         (''precision'', average (precision_seq (rev (sort_key row_score ovs)) t)),
                         (''recall'', average (recall_seq (rev (sort_key row_score ovs)) t ?N))])"
    if "ovs \<noteq> []" for ovs t
  proof -
    let ?rows = "rev (sort_key row_score ovs)"
    have "length (recall_seq ?rows t ?N) = length (precision_seq ?rows t)"
      by (simp only: length_recall_seq length_precision_seq)
    from average_precision_area_total[OF this] obtain ap where
      "average_precision (recall_seq ?rows t ?N) (precision_seq ?rows t) ''area'' = Inr ap" ..
    with that n show ?thesis by (simp add: evaluate_threshold_def Let_def)
  qed
  with n show ?thesis by blast
qed

theorem classwise_ground_truth_count_witness:
  "list_all (\<lambda>r. cat_id (snd r) \<noteq> []) (ann_info example_store)
   \<and> distinct (map fst (ann_info example_store))
   \<and> nr_gt (example_store\<lparr>chosen_ann_set := SetName ''other'', classes_blacklist_id := [1],
                            proposals := None\<rparr>) (ClassIdx 1) = Inr 3"
proof -
  have ne: "\<forall>r \<in> set (ann_info example_store). cat_id (snd r) \<noteq> []"
    by (simp add: example_ann_info gt_note_def)
  have d: "distinct (map fst (ann_info example_store))"
    by (simp add: example_ann_info)
  have "length (filter (\<lambda>r. take 1 (cat_id (snd r)) = [1]) (ann_info example_store)) = 3"
    by (simp add: example_ann_info gt_note_def)
  with classwise_ground_truth_count[OF ne d, where f = "SetName ''other''" and b = "[1]"
      and p = None and c = 1] ne d
  show ?thesis by (simp add: list_all_iff)
qed

subsection \<open>The arity check of the proposal loader\<close>

lemma try_map_total:
  "\<forall>x \<in> set xs. f x = Inr (g x) \<Longrightarrow> try_map f xs = Inr (map g xs)"
  by (induction xs) auto

lemma example_loaded:
  "img_info example_store = Some [\<lparr>image_id = 100, filename = ''a.png'', ann_ids = [7]\<rparr>,
                       \<lparr>image_id = 101, filename = ''b.png'', ann_ids = [8, 9]\<rparr>]"
  "index_of (annotation_sets example_store) (file_annotation_set (example_file boxes)) = Inr 0"
  "file_proposals (example_file (b # bs)) = raw_note b # map raw_note bs"
  by (simp_all add: example_store_def example_file_def)

text \<open>
  C9, as the loader does not behave: a proposal file whose first entry has 8
  coordinates and whose second has 4 loads; so does a file whose first entry has 4
  coordinates and whose second has 5. No assertion error is raised.
\<close>

theorem load_mixed_arity_counterexample:
  "load_proposals exact_float32 example_store
       (example_file [[0, 0, 10, 0, 10, 10, 0, 10], [0, 0, 10, 10]])
     = Inr (example_store
              \<lparr>proposals := Some [\<lparr>bbox = [0, 0, 10, 0, 10, 10, 0, 10], prop_cat_id = 1,
                                    img_idx = 0, score = 1 / 2\<rparr>,
                                  \<lparr>bbox = [0, 0, 10, 10], prop_cat_id = 1,
                                    img_idx = 0, score = 1 / 2\<rparr>],
                props_oriented := True, prop_ann_set_idx := Some 0\<rparr>)
   \<and> load_proposals exact_float32 example_store
       (example_file [[0, 0, 10, 10], [0, 0, 10, 10, 3]])
     = Inr (example_store
              \<lparr>proposals := Some [\<lparr>bbox = [0, 0, 10, 10], prop_cat_id = 1,
                                    img_idx = 0, score = 1 / 2\<rparr>,
                                  \<lparr>bbox = [0, 0, 10, 10, 3], prop_cat_id = 1,
                                    img_idx = 0, score = 1 / 2\<rparr>],
                props_oriented := False, prop_ann_set_idx := Some 0\<rparr>)"
  by (simp add: load_proposals_def example_store_def example_file_def raw_note_def item_def
      exact_float32_def)

text \<open>
  C9, amended. With annotations loaded, a known annotation set and at least one entry,
  \<^verbatim>\<open>load_proposals\<close> raises the assertion error when the first entry's box has
  neither 4 nor 8 coordinates. The boxes of the later entries are not examined: when the
  first entry has 4 or 8 coordinates and every entry's image id is known, loading
  succeeds.
\<close>

theorem load_proposals_checks_first_entry:
  assumes "img_info s = Some imgs"
    and "index_of (annotation_sets s) (file_annotation_set pf) = Inr k"
    and "file_proposals pf = q # qs"
  shows "(length (raw_bbox q) \<noteq> 4 \<and> length (raw_bbox q) \<noteq> 8
            \<longrightarrow> load_proposals float32 s pf = Inl AssertionError)
       \<and> ((length (raw_bbox q) = 4 \<or> length (raw_bbox q) = 8)
            \<and> (\<forall>r \<in> set (q # qs). map_of (img_idx_lookup s) (raw_img_id r) \<noteq> None)
            \<longrightarrow> (\<exists>s'. load_proposals float32 s pf = Inr s'))"
proof (intro conjI impI)
  assume "length (raw_bbox q) \<noteq> 4 \<and> length (raw_bbox q) \<noteq> 8"
  then show "load_proposals float32 s pf = Inl AssertionError"
    using assms by (simp add: load_proposals_def item_def)
next
  assume a: "(length (raw_bbox q) = 4 \<or> length (raw_bbox q) = 8)
            \<and> (\<forall>r \<in> set (q # qs). map_of (img_idx_lookup s) (raw_img_id r) \<noteq> None)"
  let ?f = "\<lambda>prop. case map_of (img_idx_lookup s) (raw_img_id prop) of
                        None \<Rightarrow> Inl KeyError
                      | Some prop_img_idx \<Rightarrow>
                          Inr \<lparr>bbox = map float32 (raw_bbox prop),
                               prop_cat_id = raw_cat_id prop,
                               img_idx = prop_img_idx, score = raw_score prop\<rparr>"
  let ?g = "\<lambda>prop. \<lparr>bbox = map float32 (raw_bbox prop), prop_cat_id = raw_cat_id prop,
                      img_idx = the (map_of (img_idx_lookup s) (raw_img_id prop)),
                      score = raw_score prop\<rparr>"
  have "\<forall>x \<in> set (q # qs). ?f x = Inr (?g x)" using a by (auto split: option.splits)
  then have tm: "try_map ?f (q # qs) = Inr (map ?g (q # qs))" by (rule try_map_total)
  have "load_proposals float32 s pf
          = Inr (s\<lparr>proposals := Some (map ?g (q # qs)),
                   props_oriented := (length (raw_bbox q) = 8 \<or> props_oriented s),
                   prop_ann_set_idx := Some k\<rparr>)"
    using assms a tm by (simp add: load_proposals_def item_def Let_def del: try_map.simps)
  then show "\<exists>s'. load_proposals float32 s pf = Inr s'" by blast
qed

theorem load_proposals_checks_first_entry_witness:
  "load_proposals exact_float32 example_store
       (example_file [[0, 0, 10, 10, 3], [0, 0, 10, 10]]) = Inl AssertionError
   \<and> (\<exists>s'. load_proposals exact_float32 example_store
                (example_file [[0, 0, 10, 0, 10, 10, 0, 10], [0, 0, 10, 10, 3]]) = Inr s')"
proof -
  note a = load_proposals_checks_first_entry[OF example_loaded(1)
      example_loaded(2)[of "[[0, 0, 10, 10, 3], [0, 0, 10, 10]]"]
      example_loaded(3)[of "[0, 0, 10, 10, 3]" "[[0, 0, 10, 10]]"], of exact_float32]
  note b = load_proposals_checks_first_entry[OF example_loaded(1)
      example_loaded(2)[of "[[0, 0, 10, 0, 10, 10, 0, 10], [0, 0, 10, 10, 3]]"]
      example_loaded(3)[of "[0, 0, 10, 0, 10, 10, 0, 10]" "[[0, 0, 10, 10, 3]]"], of exact_float32]
  have l: "map_of (img_idx_lookup example_store) 100 = Some 0"
    by (simp add: example_store_def)
  from a have 1: "load_proposals exact_float32 example_store
       (example_file [[0, 0, 10, 10, 3], [0, 0, 10, 10]]) = Inl AssertionError"
    by (simp add: raw_note_def)
  from b l have 2: "\<exists>s'. load_proposals exact_float32 example_store
                (example_file [[0, 0, 10, 0, 10, 10, 0, 10], [0, 0, 10, 10, 3]]) = Inr s'"
    by (simp add: raw_note_def)
  from 1 2 show ?thesis by blast
qed

end
